theory Spec2Isabelle
  imports Complex_Main "HOL-Library.Word"
begin

unbundle bit_operations_syntax

section \<open>Bytes and the library primitives the service calls\<close>

text \<open>
  Python \<open>bytes\<close> are lists of 8-bit words.  A \<open>str\<close> is kept as its UTF-8 byte string
  (an Isabelle \<open>string\<close> is a list of 8-bit characters), so \<open>s.encode()\<close> only changes
  the element type.  Python integers are unbounded: \<open>int\<close>.
\<close>

type_synonym byte = "8 word"
type_synonym bytes = "8 word list"

datatype error = StructError | ZeroDivisionError | IndexError | OverflowError

definition encode :: "string \<Rightarrow> bytes" where
  "encode s = map (\<lambda>c. of_char c) s"

text \<open>Big-endian encodings: \<open>be_bytes n v\<close> are the \<open>n\<close> low-order bytes of \<open>v\<close>.\<close>

fun be_bytes :: "nat \<Rightarrow> nat \<Rightarrow> bytes" where
  "be_bytes 0 v = []"
| "be_bytes (Suc n) v = be_bytes n (v div 256) @ [word_of_nat v]"

definition be_nat :: "bytes \<Rightarrow> nat" where
  "be_nat bs = foldl (\<lambda>acc b. acc * 256 + unat b) 0 bs"

function chunks :: "nat \<Rightarrow> 'a list \<Rightarrow> 'a list list" where
  "chunks k xs = (if k = 0 \<or> xs = [] then [] else take k xs # chunks k (drop k xs))"
  by pat_completeness auto
termination
  by (relation "measure (\<lambda>(k, xs). length xs)") auto

declare chunks.simps [simp del]

subsection \<open>32-bit arithmetic of the hash functions, wrap-around written out\<close>

definition add32 :: "nat \<Rightarrow> nat \<Rightarrow> nat" where
  "add32 a b = (a + b) mod 4294967296"

definition not32 :: "nat \<Rightarrow> nat" where
  "not32 w = 4294967295 - w"

definition rotl32 :: "nat \<Rightarrow> nat \<Rightarrow> nat" where
  "rotl32 n w = (w * 2 ^ n) mod 4294967296 + w div 2 ^ (32 - n)"

definition rotr32 :: "nat \<Rightarrow> nat \<Rightarrow> nat" where
  "rotr32 n w = w div 2 ^ n + (w mod 2 ^ n) * 2 ^ (32 - n)"

text \<open>Merkle-Damgard padding shared by SHA-1 and SHA-256 (64-byte blocks, 64-bit length).\<close>

definition md_pad :: "bytes \<Rightarrow> bytes" where
  "md_pad m = m @ [0x80] @ replicate ((119 - length m mod 64) mod 64) 0 @ be_bytes 8 (8 * length m)"

subsection \<open>\<open>hashlib.sha1\<close> (FIPS 180-4)\<close>

definition sha1_f :: "nat \<Rightarrow> nat \<Rightarrow> nat \<Rightarrow> nat \<Rightarrow> nat" where
  "sha1_f t b c d =
     (if t < 20 then (b AND c) OR (not32 b AND d)
      else if t < 40 then b XOR c XOR d
      else if t < 60 then (b AND c) OR (b AND d) OR (c AND d)
      else b XOR c XOR d)"

definition sha1_k :: "nat \<Rightarrow> nat" where
  "sha1_k t =
     (if t < 20 then 0x5A827999 else if t < 40 then 0x6ED9EBA1
      else if t < 60 then 0x8F1BBCDC else 0xCA62C1D6)"

type_synonym sha1_state = "nat \<times> nat \<times> nat \<times> nat \<times> nat"

text \<open>
  The eighty rounds, counted by \<open>t\<close>; \<open>w\<close> is the sliding window of the last sixteen
  schedule words, its head the word of round \<open>t\<close>.
\<close>

function sha1_rounds :: "nat \<Rightarrow> nat list \<Rightarrow> sha1_state \<Rightarrow> sha1_state" where
  "sha1_rounds t w (a, b, c, d, e) =
     (if 80 \<le> t then (a, b, c, d, e)
      else sha1_rounds (t + 1)
             (tl w @ [rotl32 1 (w ! 13 XOR w ! 8 XOR w ! 2 XOR w ! 0)])
             (add32 (add32 (add32 (add32 (rotl32 5 a) (sha1_f t b c d)) e) (sha1_k t)) (hd w),
              a, rotl32 30 b, c, d))"
  by pat_completeness auto
termination
  by (relation "measure (\<lambda>(t, w, s). 80 - t)") auto

declare sha1_rounds.simps [simp del]

fun sha1_block :: "sha1_state \<Rightarrow> bytes \<Rightarrow> sha1_state" where
  "sha1_block (h0, h1, h2, h3, h4) blk =
     (case sha1_rounds 0 (map be_nat (chunks 4 blk)) (h0, h1, h2, h3, h4) of
        (a, b, c, d, e) \<Rightarrow> (add32 h0 a, add32 h1 b, add32 h2 c, add32 h3 d, add32 h4 e))"

definition sha1_init :: sha1_state where
  "sha1_init = (0x67452301, 0xEFCDAB89, 0x98BADCFE, 0x10325476, 0xC3D2E1F0)"

definition sha1 :: "bytes \<Rightarrow> bytes" where
  "sha1 m =
     (case foldl sha1_block sha1_init (chunks 64 (md_pad m)) of
        (a, b, c, d, e) \<Rightarrow> concat (map (be_bytes 4) [a, b, c, d, e]))"

subsection \<open>\<open>hashlib.sha256\<close> (FIPS 180-4)\<close>

definition sha256_k :: "nat list" where
  "sha256_k =
    [1116352408, 1899447441, 3049323471, 3921009573, 961987163, 1508970993,
     2453635748, 2870763221, 3624381080, 310598401, 607225278, 1426881987,
     1925078388, 2162078206, 2614888103, 3248222580, 3835390401, 4022224774,
     264347078, 604807628, 770255983, 1249150122, 1555081692, 1996064986,
     2554220882, 2821834349, 2952996808, 3210313671, 3336571891, 3584528711,
     113926993, 338241895, 666307205, 773529912, 1294757372, 1396182291,
     1695183700, 1986661051, 2177026350, 2456956037, 2730485921, 2820302411,
     3259730800, 3345764771, 3516065817, 3600352804, 4094571909, 275423344,
     430227734, 506948616, 659060556, 883997877, 958139571, 1322822218,
     1537002063, 1747873779, 1955562222, 2024104815, 2227730452, 2361852424,
     2428436474, 2756734187, 3204031479, 3329325298]"

definition sha256_ch :: "nat \<Rightarrow> nat \<Rightarrow> nat \<Rightarrow> nat" where
  "sha256_ch e f g = (e AND f) XOR (not32 e AND g)"

definition sha256_maj :: "nat \<Rightarrow> nat \<Rightarrow> nat \<Rightarrow> nat" where
  "sha256_maj a b c = (a AND b) XOR (a AND c) XOR (b AND c)"

definition sha256_S0 :: "nat \<Rightarrow> nat" where
  "sha256_S0 a = rotr32 2 a XOR rotr32 13 a XOR rotr32 22 a"

definition sha256_S1 :: "nat \<Rightarrow> nat" where
  "sha256_S1 e = rotr32 6 e XOR rotr32 11 e XOR rotr32 25 e"

definition sha256_s0 :: "nat \<Rightarrow> nat" where
  "sha256_s0 x = rotr32 7 x XOR rotr32 18 x XOR x div 2 ^ 3"

definition sha256_s1 :: "nat \<Rightarrow> nat" where
  "sha256_s1 x = rotr32 17 x XOR rotr32 19 x XOR x div 2 ^ 10"

type_synonym sha256_state = "nat \<times> nat \<times> nat \<times> nat \<times> nat \<times> nat \<times> nat \<times> nat"

definition sha256_mix :: "nat \<Rightarrow> nat \<Rightarrow> sha256_state \<Rightarrow> sha256_state" where
  "sha256_mix t1 t2 s =
     (case s of (a, b, c, d, e, f, g, h) \<Rightarrow> (add32 t1 t2, a, b, c, add32 d t1, e, f, g))"

fun sha256_rounds :: "nat list \<Rightarrow> nat list \<Rightarrow> sha256_state \<Rightarrow> sha256_state" where
  "sha256_rounds [] w s = s"
| "sha256_rounds (k # ks) w (a, b, c, d, e, f, g, h) =
     sha256_rounds ks
       (tl w @ [add32 (add32 (add32 (sha256_s1 (w ! 14)) (w ! 9)) (sha256_s0 (w ! 1))) (w ! 0)])
       (sha256_mix
          (add32 (add32 (add32 (add32 h (sha256_S1 e)) (sha256_ch e f g)) k) (hd w))
          (add32 (sha256_S0 a) (sha256_maj a b c))
          (a, b, c, d, e, f, g, h))"

fun sha256_block :: "sha256_state \<Rightarrow> bytes \<Rightarrow> sha256_state" where
  "sha256_block (h0, h1, h2, h3, h4, h5, h6, h7) blk =
     (case sha256_rounds sha256_k (map be_nat (chunks 4 blk)) (h0, h1, h2, h3, h4, h5, h6, h7) of
        (a, b, c, d, e, f, g, h) \<Rightarrow>
          (add32 h0 a, add32 h1 b, add32 h2 c, add32 h3 d,
           add32 h4 e, add32 h5 f, add32 h6 g, add32 h7 h))"

definition sha256_init :: sha256_state where
  "sha256_init =
     (0x6a09e667, 0xbb67ae85, 0x3c6ef372, 0xa54ff53a, 0x510e527f, 0x9b05688c, 0x1f83d9ab, 0x5be0cd19)"

definition sha256 :: "bytes \<Rightarrow> bytes" where
  "sha256 m =
     (case foldl sha256_block sha256_init (chunks 64 (md_pad m)) of
        (a, b, c, d, e, f, g, h) \<Rightarrow> concat (map (be_bytes 4) [a, b, c, d, e, f, g, h]))"

subsection \<open>\<open>hmac.new(key, msg, digestmod).digest()\<close> (RFC 2104, block size 64)\<close>

definition hmac :: "(bytes \<Rightarrow> bytes) \<Rightarrow> bytes \<Rightarrow> bytes \<Rightarrow> bytes" where
  "hmac H key msg =
     H (map (\<lambda>b. b XOR 0x5C)
          ((if 64 < length key then H key else key)
             @ replicate (64 - length (if 64 < length key then H key else key)) 0)
        @ H (map (\<lambda>b. b XOR 0x36)
               ((if 64 < length key then H key else key)
                  @ replicate (64 - length (if 64 < length key then H key else key)) 0)
             @ msg))"

subsection \<open>\<open>struct.pack(">Q", n)\<close> and \<open>struct.unpack(">I", b)[0]\<close>\<close>

definition struct_pack_Q :: "int \<Rightarrow> error + bytes" where
  "struct_pack_Q n =
     (if 0 \<le> n \<and> n < 2 ^ 64 then Inr (be_bytes 8 (nat n)) else Inl StructError)"

definition struct_unpack_I :: "bytes \<Rightarrow> error + int" where
  "struct_unpack_I b = (if length b = 4 then Inr (int (be_nat b)) else Inl StructError)"

subsection \<open>\<open>base64.b64encode\<close> and \<open>hexdigest\<close>\<close>

definition b64_alphabet :: string where
  "b64_alphabet = ''ABCDEFGHIJKLMNOPQRSTUVWXYZabcdefghijklmnopqrstuvwxyz0123456789+/''"

definition b64_char :: "nat \<Rightarrow> char" where
  "b64_char n = b64_alphabet ! (n mod 64)"

fun b64encode :: "bytes \<Rightarrow> string" where
  "b64encode [] = []"
| "b64encode [a] =
     [b64_char (unat a div 4), b64_char (unat a mod 4 * 16), CHR ''='', CHR ''='']"
| "b64encode [a, b] =
     [b64_char (unat a div 4), b64_char (unat a mod 4 * 16 + unat b div 16),
      b64_char (unat b mod 16 * 4), CHR ''='']"
| "b64encode (a # b # c # rest) =
     [b64_char (unat a div 4), b64_char (unat a mod 4 * 16 + unat b div 16),
      b64_char (unat b mod 16 * 4 + unat c div 64), b64_char (unat c mod 64)] @ b64encode rest"

definition hex_char :: "nat \<Rightarrow> char" where
  "hex_char n = ''0123456789abcdef'' ! (n mod 16)"

definition hexdigest :: "bytes \<Rightarrow> string" where
  "hexdigest bs = concat (map (\<lambda>b. [hex_char (unat b div 16), hex_char (unat b mod 16)]) bs)"

subsection \<open>\<open>float.__floordiv__\<close>: the floor division of a double by an \<open>int\<close>\<close>

text \<open>
  A double is kept as the real number it stands for.  \<open>round_double x\<close> is the double
  nearest to \<open>x\<close>, ties to the even significand (binary64: 53 significant bits, spacing
  \<open>2 ^ - 1074\<close> at the least): the result of an operation on doubles whose exact value is
  \<open>x\<close>, and of the conversion of the \<open>int\<close> \<open>x\<close>, for \<open>x\<close> below the overflow threshold
  \<open>2 ^ 1024 - 2 ^ 970\<close>.  \<open>bit_length\<close> is \<open>int.bit_length\<close>, \<open>ilog2 a\<close> the exponent of
  the power of two at or below \<open>a > 0\<close>.
\<close>

fun bit_length :: "nat \<Rightarrow> nat" where
  "bit_length n = (if n = 0 then 0 else Suc (bit_length (n div 2)))"

declare bit_length.simps [simp del]

definition ilog2 :: "real \<Rightarrow> int" where
  "ilog2 a = (if 1 \<le> a then int (bit_length (nat \<lfloor>a\<rfloor>)) - 1
              else - int (bit_length (nat (\<lceil>1 / a\<rceil> - 1))))"

definition scale2 :: "int \<Rightarrow> real" where
  "scale2 e = (if 0 \<le> e then 2 ^ nat e else 1 / 2 ^ nat (- e))"

definition round_half_even :: "real \<Rightarrow> int" where
  "round_half_even x =
     (let f = \<lfloor>x\<rfloor>; r = x - of_int f in
      if r < 1 / 2 then f else if 1 / 2 < r then f + 1 else if even f then f else f + 1)"

definition round_double :: "real \<Rightarrow> real" where
  "round_double x =
     (if x = 0 then 0
      else let u = scale2 (max (ilog2 \<bar>x\<bar> - 52) (- 1074)) in
           of_int (round_half_even (x / u)) * u)"

text \<open>The C library's \<open>fmod\<close>: the remainder of the quotient truncated towards zero, exact.\<close>

definition fmod :: "real \<Rightarrow> real \<Rightarrow> real" where
  "fmod x y = x - of_int (if 0 \<le> x / y then \<lfloor>x / y\<rfloor> else \<lceil>x / y\<rceil>) * y"

text \<open>
  \<open>int(vx // w)\<close> for a double \<open>vx\<close> and an \<open>int\<close> \<open>w\<close>, as the interpreter computes it
  (\<open>float_floor_div\<close> in CPython): the divisor is converted to a double, an
  \<open>OverflowError\<close> from the threshold on; a zero divisor raises; the quotient of
  \<open>vx - fmod(vx, wx)\<close> by \<open>wx\<close> is lowered by one when the remainder is not zero and
  has not the sign of the divisor, and is snapped to the nearest integer.
\<close>

definition float_floor_div :: "real \<Rightarrow> int \<Rightarrow> error + int" where
  "float_floor_div vx w =
     (if 2 ^ 1024 - 2 ^ 970 \<le> \<bar>w\<bar> then Inl OverflowError
      else if w = 0 then Inl ZeroDivisionError
      else
        (let wx = round_double (of_int w);
             md = fmod vx wx;
             dv = round_double (round_double (vx - md) / wx);
             dv = (if md \<noteq> 0 \<and> (wx < 0) \<noteq> (md < 0) then round_double (dv - 1) else dv);
             fl = \<lfloor>dv\<rfloor>
         in Inr (if 1 / 2 < dv - of_int fl then fl + 1 else fl)))"


section \<open>Configuration (\<open>app/config.py\<close>)\<close>

text \<open>
  The fields of \<open>Settings\<close> the service reads.  \<open>otp_digits\<close> is a natural number: with a
  negative exponent Python's \<open>10 ** digits\<close> is a float.
\<close>

record settings =
  master_secret :: string
  otp_digits :: nat
  otp_interval :: int
  otp_window :: int

definition default_settings :: "string \<Rightarrow> settings" where
  "default_settings secret =
     \<lparr>master_secret = secret, otp_digits = 6, otp_interval = 30, otp_window = 1\<rparr>"

section \<open>The TOTP engine (\<open>EnterpriseOTPService\<close> in \<open>app/otp_service.py\<close>)\<close>

definition generate_derived_key :: "settings \<Rightarrow> string \<Rightarrow> bytes" where
  "generate_derived_key cfg device_id =
     hmac sha256 (encode (master_secret cfg)) (encode device_id)"

text \<open>
  \<open>_generate_otp\<close>.  \<open>struct.pack\<close> raises outside the unsigned 64-bit range, \<open>hmac_hash[-1]\<close>
  raises on an empty digest, the slice \<open>hmac_hash[offset:offset + 4]\<close> is clipped to the digest,
  and \<open>struct.unpack\<close> raises unless it is given exactly four bytes.
\<close>

definition generate_otp :: "settings \<Rightarrow> bytes \<Rightarrow> int \<Rightarrow> error + int" where
  "generate_otp cfg secret_key time_step =
     (case struct_pack_Q time_step of
        Inl e \<Rightarrow> Inl e
      | Inr msg \<Rightarrow>
          (let hmac_hash = hmac sha1 secret_key msg in
           if hmac_hash = [] then Inl IndexError
           else
             (case struct_unpack_I (take 4 (drop (unat (last hmac_hash) AND 0x0F) hmac_hash)) of
                Inl e \<Rightarrow> Inl e
              | Inr v \<Rightarrow> Inr ((v AND 0x7FFFFFFF) mod 10 ^ otp_digits cfg))))"

text \<open>
  \<open>_verify_totp\<close>: the loop over \<open>range(-window, window + 1)\<close>, leaving at the first match
  and at the first exception.  The clock reading \<open>time.time()\<close> is the real number \<open>now\<close>
  (seconds since the epoch); \<open>//\<close> by zero raises.

  \<open>int(time.time() // interval)\<close> is the floor division of doubles, \<open>float_floor_div\<close>.
  Here the time step is the floor of the exact quotient.  The two agree when
  \<open>\<bar>now\<bar> < 2 ^ 53\<close> and \<open>0 < \<bar>interval\<bar> < 2 ^ 53\<close>, where no operation of the division
  rounds (\<open>time_step_double\<close> below), that is for every clock reading within 285 million
  years of the epoch.  From \<open>2 ^ 53\<close> on they can differ: \<open>1e18 // 30\<close> is
  \<open>33333333333333332\<close>, the exact floor is \<open>33333333333333333\<close>
  (\<open>time_step_double_1e18\<close>).  The theorems that compare the time step of the code with
  the time step of the specification are stated for clock readings and intervals below
  \<open>2 ^ 53\<close>.
\<close>

fun verify_loop :: "settings \<Rightarrow> bytes \<Rightarrow> int \<Rightarrow> int \<Rightarrow> int list \<Rightarrow> error + bool" where
  "verify_loop cfg secret_key otp current_time_step [] = Inr False"
| "verify_loop cfg secret_key otp current_time_step (offset # rest) =
     (case generate_otp cfg secret_key (current_time_step + offset) of
        Inl e \<Rightarrow> Inl e
      | Inr code \<Rightarrow>
          if code = otp then Inr True
          else verify_loop cfg secret_key otp current_time_step rest)"

definition verify_totp :: "settings \<Rightarrow> bytes \<Rightarrow> int \<Rightarrow> real \<Rightarrow> error + bool" where
  "verify_totp cfg secret_key otp now =
     (if otp_interval cfg = 0 then Inl ZeroDivisionError
      else verify_loop cfg secret_key otp \<lfloor>now / of_int (otp_interval cfg)\<rfloor>
             [- otp_window cfg .. otp_window cfg])"

text \<open>
  \<open>ClientOTP.generate_otp\<close>: the code of the current time step, the same floor division.
\<close>

definition client_generate_otp :: "settings \<Rightarrow> bytes \<Rightarrow> real \<Rightarrow> error + int" where
  "client_generate_otp cfg derived_key now =
     (if otp_interval cfg = 0 then Inl ZeroDivisionError
      else generate_otp cfg derived_key \<lfloor>now / of_int (otp_interval cfg)\<rfloor>)"

section \<open>The store (\<open>app/database.py\<close>) and the session\<close>

text \<open>
  Timestamps (\<open>datetime.utcnow()\<close>) are real numbers, seconds since the epoch, on the same
  clock as \<open>time.time()\<close>; all clock readings of one call are the one instant \<open>now\<close>.
  The columns \<open>id\<close> (the position of the row), \<open>user_agent\<close> and \<open>additional_data\<close>
  (never written by the service) of \<open>audit_logs\<close> are left out.
\<close>

record device =
  device_id :: string
  user_id :: string
  derived_key_hash :: string
  is_active :: bool
  created_at :: real
  last_used :: "real option"
  usage_count :: int
  deactivated_at :: "real option"

record audit_log =
  log_device_id :: string
  action :: string
  success :: bool
  timestamp :: real
  ip_address :: string

text \<open>
  A session (\<open>autocommit=False, autoflush=False\<close>) over the two tables: \<open>devices\<close> and
  \<open>audit_logs\<close> are the committed rows, the only ones a query sees; \<open>pending\<close> are the
  audit rows handed to \<open>db.add\<close> and not yet committed.  \<open>db.commit()\<close> writes them,
  \<open>db.rollback()\<close> and \<open>db.close()\<close> drop them.  The store itself never fails.
\<close>

record db =
  devices :: "device list"
  audit_logs :: "audit_log list"
  pending :: "audit_log list"

definition add_log :: "audit_log \<Rightarrow> db \<Rightarrow> db" where
  "add_log entry s = s\<lparr>pending := pending s @ [entry]\<rparr>"

definition commit :: "db \<Rightarrow> db" where
  "commit s = s\<lparr>audit_logs := audit_logs s @ pending s, pending := []\<rparr>"

definition rollback :: "db \<Rightarrow> db" where
  "rollback s = s\<lparr>pending := []\<rparr>"

definition close :: "db \<Rightarrow> db" where
  "close s = s\<lparr>pending := []\<rparr>"

text \<open>
  A change to a loaded \<open>Device\<close> object is flushed as
  \<open>UPDATE devices SET ... WHERE device_id = ?\<close>.
\<close>

definition update_device :: "string \<Rightarrow> (device \<Rightarrow> device) \<Rightarrow> db \<Rightarrow> db" where
  "update_device x f s =
     s\<lparr>devices := map (\<lambda>d. if device_id d = x then f d else d) (devices s)\<rparr>"

section \<open>The service operations\<close>

datatype register_result = Registered string string string | RegisterError string

datatype verify_result = Verification bool | VerifyError string

datatype deactivate_result = Deactivated string | DeactivateError string

definition register_device :: "settings \<Rightarrow> string \<Rightarrow> string \<Rightarrow> real \<Rightarrow> db \<Rightarrow> register_result \<times> db" where
  "register_device cfg x user now s =
     (case find (\<lambda>d. device_id d = x) (devices s) of
        Some existing_device \<Rightarrow> (RegisterError ''Device already registered'', s)
      | None \<Rightarrow>
          (Registered (b64encode (generate_derived_key cfg x)) x ''Device registered successfully'',
           commit
             (add_log
                \<lparr>log_device_id = x, action = ''DEVICE_REGISTERED'', success = True,
                 timestamp = now, ip_address = ''unknown''\<rparr>
                (s\<lparr>devices := devices s @
                    [\<lparr>device_id = x, user_id = user,
                      derived_key_hash = hexdigest (sha256 (generate_derived_key cfg x)),
                      is_active = True, created_at = now, last_used = None,
                      usage_count = 0, deactivated_at = None\<rparr>]\<rparr>))))"

definition log_verification :: "db \<Rightarrow> string \<Rightarrow> string \<Rightarrow> bool \<Rightarrow> string \<Rightarrow> real \<Rightarrow> db" where
  "log_verification s x act ok ip now =
     add_log \<lparr>log_device_id = x, action = act, success = ok, timestamp = now, ip_address = ip\<rparr> s"

definition recent_attempts :: "db \<Rightarrow> string \<Rightarrow> real \<Rightarrow> nat" where
  "recent_attempts s x now =
     length (filter (\<lambda>l. log_device_id l = x \<and> action l = ''OTP_VERIFICATION''
                           \<and> timestamp l > now - 300) (audit_logs s))"

definition verify_otp :: "settings \<Rightarrow> string \<Rightarrow> int \<Rightarrow> string \<Rightarrow> real \<Rightarrow> db \<Rightarrow> verify_result \<times> db" where
  "verify_otp cfg x otp ip now s =
     (case find (\<lambda>d. device_id d = x \<and> is_active d) (devices s) of
        None \<Rightarrow>
          (VerifyError ''Device not found or inactive'',
           log_verification s x ''INVALID_DEVICE'' False ip now)
      | Some dev \<Rightarrow>
          if recent_attempts s x now > 10 then
            (VerifyError ''Rate limit exceeded'',
             log_verification s x ''RATE_LIMITED'' False ip now)
          else
            (case verify_totp cfg (generate_derived_key cfg x) otp now of
               Inl e \<Rightarrow> (VerifyError ''Verification failed'', rollback s)
             | Inr is_valid \<Rightarrow>
                 (Verification is_valid,
                  commit
                    (log_verification
                       (if is_valid
                        then update_device x
                               (\<lambda>d. d\<lparr>last_used := Some now, usage_count := usage_count d + 1\<rparr>) s
                        else s)
                       x ''OTP_VERIFICATION'' is_valid ip now))))"

definition deactivate_device :: "string \<Rightarrow> real \<Rightarrow> db \<Rightarrow> deactivate_result \<times> db" where
  "deactivate_device x now s =
     (case find (\<lambda>d. device_id d = x) (devices s) of
        None \<Rightarrow> (DeactivateError ''Device not found'', s)
      | Some dev \<Rightarrow>
          (Deactivated ''Device deactivated successfully'',
           commit
             (add_log
                \<lparr>log_device_id = x, action = ''DEVICE_DEACTIVATED'', success = True,
                 timestamp = now, ip_address = ''system''\<rparr>
                (update_device x (\<lambda>d. d\<lparr>is_active := False, deactivated_at := Some now\<rparr>) s))))"

text \<open>Requests against one session, each at its own time, and the states they lead through.\<close>

datatype request = Register string string | Verify string int string | Deactivate string

fun exec :: "settings \<Rightarrow> request \<times> real \<Rightarrow> db \<Rightarrow> db" where
  "exec cfg (Register x user, now) s = snd (register_device cfg x user now s)"
| "exec cfg (Verify x otp ip, now) s = snd (verify_otp cfg x otp ip now s)"
| "exec cfg (Deactivate x, now) s = snd (deactivate_device x now s)"

fun run :: "settings \<Rightarrow> (request \<times> real) list \<Rightarrow> db \<Rightarrow> db" where
  "run cfg [] s = s"
| "run cfg (r # rs) s = run cfg rs (exec cfg r s)"

section \<open>The specification's TOTP engine\<close>

text \<open>
  \<open>code_at\<close> in the words of the specification: the HMAC-SHA1 of the 8-byte big-endian
  time step under the secret; the low nibble of the last digest byte is an offset; the four
  bytes from there are a big-endian unsigned number, taken without its top bit and
  reduced modulo \<open>10 ^ digits\<close>.
\<close>

definition dynamic_truncation :: "bytes \<Rightarrow> nat" where
  "dynamic_truncation h =
     (let offset = unat (last h) mod 16 in
      (unat (h ! offset) * 256 ^ 3 + unat (h ! (offset + 1)) * 256 ^ 2
         + unat (h ! (offset + 2)) * 256 + unat (h ! (offset + 3))) mod 2 ^ 31)"

definition code_at :: "nat \<Rightarrow> bytes \<Rightarrow> int \<Rightarrow> int" where
  "code_at digits secret time_step =
     int (dynamic_truncation (hmac sha1 secret (be_bytes 8 (nat time_step))) mod 10 ^ digits)"

definition current_time_step :: "int \<Rightarrow> real \<Rightarrow> int" where
  "current_time_step interval_seconds now = \<lfloor>now / of_int interval_seconds\<rfloor>"

definition spec_verify :: "settings \<Rightarrow> bytes \<Rightarrow> int \<Rightarrow> real \<Rightarrow> bool" where
  "spec_verify cfg secret candidate now =
     (\<exists>k \<in> set [- otp_window cfg .. otp_window cfg].
        candidate = code_at (otp_digits cfg) secret
                      (current_time_step (otp_interval cfg) now + k))"

section \<open>The specification's rate limiter\<close>

text \<open>
  \<open>attempts_in_window\<close> in the words of the specification: the audit entries of the device
  with action \<open>VERIFIED\<close> or \<open>VERIFICATION_REJECTED\<close> within \<open>[now - 300, now]\<close>.  The code
  writes \<open>OTP_VERIFICATION\<close> for a checked code (accepted or not) and \<open>INVALID_DEVICE\<close> for
  the rejection of an absent or inactive device, the two cases the specification records as
  \<open>VERIFIED\<close> and \<open>VERIFICATION_REJECTED\<close>.
\<close>

definition spec_attempts_in_window :: "db \<Rightarrow> string \<Rightarrow> real \<Rightarrow> nat" where
  "spec_attempts_in_window s x now =
     length (filter (\<lambda>l. log_device_id l = x
                           \<and> (action l = ''OTP_VERIFICATION'' \<or> action l = ''INVALID_DEVICE'')
                           \<and> now - 300 \<le> timestamp l \<and> timestamp l \<le> now) (audit_logs s))"

section \<open>A concrete deployment\<close>

text \<open>
  Master secret \<open>M\<close>, default settings, one device \<open>D1\<close>.  \<open>key_D1\<close> is the derived
  key of \<open>D1\<close>; \<open>db_D1\<close> is the store after \<open>D1\<close> was registered for \<open>alice\<close> at
  time 12000000; \<open>db_busy\<close> has eleven more verification attempts of \<open>D1\<close>, one a
  second from 12130700 on (the requests \<open>failed_D1\<close>, with a wrong code); in \<open>db_off\<close>
  the device was deactivated at 12130820.
  \<open>db_probed\<close> is the store of a session in which \<open>D1\<close> was asked for eleven times, one
  request a second from 11999900 on, before it was registered at 12000000.
\<close>

definition cfg_M :: settings where
  "cfg_M = default_settings ''M''"

definition key_D1 :: bytes where
  "key_D1 =
     [156, 139, 109, 60, 184, 194, 117, 68, 43, 212, 27, 236, 227, 22, 74, 103,
      142, 191, 76, 185, 195, 253, 55, 187, 228, 9, 224, 57, 214, 108, 131, 80]"

definition db_empty :: db where
  "db_empty = \<lparr>devices = [], audit_logs = [], pending = []\<rparr>"

definition row_D1 :: device where
  "row_D1 =
     \<lparr>device_id = ''D1'', user_id = ''alice'',
      derived_key_hash = ''23e238bf5146ddd520506d1849803be59469f06fbd5982a342647219394bb795'',
      is_active = True, created_at = 12000000, last_used = None,
      usage_count = 0, deactivated_at = None\<rparr>"

definition log_D1 :: audit_log where
  "log_D1 =
     \<lparr>log_device_id = ''D1'', action = ''DEVICE_REGISTERED'', success = True,
      timestamp = 12000000, ip_address = ''unknown''\<rparr>"

definition db_D1 :: db where
  "db_D1 = \<lparr>devices = [row_D1], audit_logs = [log_D1], pending = []\<rparr>"

definition attempt_D1 :: "int \<Rightarrow> audit_log" where
  "attempt_D1 i =
     \<lparr>log_device_id = ''D1'', action = ''OTP_VERIFICATION'', success = False,
      timestamp = 12130700 + of_int i, ip_address = ''10.0.0.7''\<rparr>"

definition failed_D1 :: "int \<Rightarrow> request \<times> real" where
  "failed_D1 i = (Verify ''D1'' 123456 ''10.0.0.7'', 12130700 + of_int i)"

definition db_busy :: db where
  "db_busy = db_D1\<lparr>audit_logs := log_D1 # map attempt_D1 [0, 1, 2, 3, 4, 5, 6, 7, 8, 9, 10]\<rparr>"

definition db_off :: db where
  "db_off =
     \<lparr>devices = [row_D1\<lparr>is_active := False, deactivated_at := Some 12130820\<rparr>],
      audit_logs =
        [log_D1,
         \<lparr>log_device_id = ''D1'', action = ''DEVICE_DEACTIVATED'', success = True,
          timestamp = 12130820, ip_address = ''system''\<rparr>],
      pending = []\<rparr>"

definition probe_D1 :: "int \<Rightarrow> request \<times> real" where
  "probe_D1 i = (Verify ''D1'' 123456 ''10.0.0.7'', 11999900 + of_int i)"

definition probe_log_D1 :: "int \<Rightarrow> audit_log" where
  "probe_log_D1 i =
     \<lparr>log_device_id = ''D1'', action = ''INVALID_DEVICE'', success = False,
      timestamp = 11999900 + of_int i, ip_address = ''10.0.0.7''\<rparr>"

definition db_probed :: db where
  "db_probed =
     \<lparr>devices = [row_D1],
      audit_logs = map probe_log_D1 [0, 1, 2, 3, 4, 5, 6, 7, 8, 9, 10] @ [log_D1],
      pending = []\<rparr>"

section \<open>Evaluation of the primitives\<close>

lemma upto_window_1: "[- 1 .. 1 :: int] = [- 1, 0, 1]"
  by code_simp

lemma replicate_numeral: "replicate (numeral k) x = x # replicate (pred_numeral k) x"
  by (simp add: numeral_eq_Suc)

lemma be_bytes_numeral:
  "be_bytes (numeral k) v = be_bytes (pred_numeral k) (v div 256) @ [word_of_nat v]"
  using be_bytes.simps(2) [of "pred_numeral k" v] by (simp only: numeral_eq_Suc [symmetric])

lemmas hash_eval =
  md_pad_def be_bytes_numeral replicate_numeral chunks.simps be_nat_def
  add32_def not32_def rotl32_def rotr32_def
  sha1_def sha1_rounds.simps sha1_f_def sha1_k_def sha1_init_def
  sha256_def sha256_k_def sha256_ch_def sha256_maj_def sha256_S0_def sha256_S1_def
  sha256_s0_def sha256_s1_def sha256_mix_def sha256_init_def
  hmac_def encode_def

lemmas otp_eval =
  generate_otp_def struct_pack_Q_def struct_unpack_I_def cfg_M_def default_settings_def
  key_D1_def Let_def

text \<open>Known answers: FIPS 180 (\<open>abc\<close>), RFC 4226 appendix D (counter 1).\<close>

lemma sha1_abc:
  "sha1 (encode ''abc'') =
     [0xa9, 0x99, 0x3e, 0x36, 0x47, 0x06, 0x81, 0x6a, 0xba, 0x3e,
      0x25, 0x71, 0x78, 0x50, 0xc2, 0x6c, 0x9c, 0xd0, 0xd8, 0x9d]"
  by (simp add: hash_eval)

lemma sha256_abc:
  "sha256 (encode ''abc'') =
     [0xba, 0x78, 0x16, 0xbf, 0x8f, 0x01, 0xcf, 0xea, 0x41, 0x41, 0x40, 0xde, 0x5d, 0xae, 0x22, 0x23,
      0xb0, 0x03, 0x61, 0xa3, 0x96, 0x17, 0x7a, 0x9c, 0xb4, 0x10, 0xff, 0x61, 0xf2, 0x00, 0x15, 0xad]"
  by (simp add: hash_eval)

lemma otp_rfc4226_1: "generate_otp cfg_M (encode ''12345678901234567890'') 1 = Inr 287082"
  by (simp add: otp_eval hash_eval)

text \<open>The derived key of \<open>D1\<close>, its fingerprint and its codes.\<close>

lemma derive_D1: "generate_derived_key cfg_M ''D1'' = key_D1"
  by (simp add: generate_derived_key_def cfg_M_def default_settings_def key_D1_def hash_eval)

lemma hash_D1:
  "hexdigest (sha256 key_D1) = ''23e238bf5146ddd520506d1849803be59469f06fbd5982a342647219394bb795''"
  by (simp add: key_D1_def hash_eval hexdigest_def hex_char_def)

lemma b64_D1: "b64encode key_D1 = ''nIttPLjCdUQr1Bvs4xZKZ46/TLnD/Te75AngOdZsg1A=''"
  by (simp add: key_D1_def b64_char_def b64_alphabet_def)

lemma otp_D1_0: "generate_otp cfg_M key_D1 0 = Inr 686598"
  by (simp add: otp_eval hash_eval)

lemma otp_D1_1: "generate_otp cfg_M key_D1 1 = Inr 681594"
  by (simp add: otp_eval hash_eval)

lemma otp_D1_2: "generate_otp cfg_M key_D1 2 = Inr 18356"
  by (simp add: otp_eval hash_eval)

lemma otp_D1_3: "generate_otp cfg_M key_D1 3 = Inr 762939"
  by (simp add: otp_eval hash_eval)

lemma otp_D1_4: "generate_otp cfg_M key_D1 4 = Inr 691508"
  by (simp add: otp_eval hash_eval)

lemma otp_D1_404355: "generate_otp cfg_M key_D1 404355 = Inr 849861"
  by (simp add: otp_eval hash_eval)

lemma otp_D1_404356: "generate_otp cfg_M key_D1 404356 = Inr 290975"
  by (simp add: otp_eval hash_eval)

lemma otp_D1_404357: "generate_otp cfg_M key_D1 404357 = Inr 770893"
  by (simp add: otp_eval hash_eval)

lemma otp_D1_404358: "generate_otp cfg_M key_D1 404358 = Inr 21812"
  by (simp add: otp_eval hash_eval)

lemma otp_D1_404360: "generate_otp cfg_M key_D1 404360 = Inr 835334"
  by (simp add: otp_eval hash_eval)

lemma otp_D1_404361: "generate_otp cfg_M key_D1 404361 = Inr 835334"
  by (simp add: otp_eval hash_eval)

lemma register_D1:
  "register_device cfg_M ''D1'' ''alice'' 12000000 db_empty =
     (Registered ''nIttPLjCdUQr1Bvs4xZKZ46/TLnD/Te75AngOdZsg1A='' ''D1''
        ''Device registered successfully'', db_D1)"
  by (simp add: register_device_def derive_D1 hash_D1 b64_D1 db_empty_def db_D1_def row_D1_def
      log_D1_def commit_def add_log_def)


section \<open>The code of a time step\<close>

lemma length_be_bytes: "length (be_bytes n v) = n"
  by (induction n arbitrary: v) simp_all

lemma length_sha1: "length (sha1 m) = 20"
  by (simp add: sha1_def length_be_bytes split: prod.splits)

lemma length_sha256: "length (sha256 m) = 32"
  by (simp add: sha256_def length_be_bytes split: prod.splits)

lemma length_hmac_sha1: "length (hmac sha1 key msg) = 20"
  by (simp add: hmac_def length_sha1)

lemma nat_and_15: "(n::nat) AND 15 = n mod 16"
proof -
  have "n AND mask 4 = take_bit 4 n" by (simp add: take_bit_eq_mask)
  also have "\<dots> = n mod 2 ^ 4" by (simp add: take_bit_eq_mod)
  finally show ?thesis by (simp add: mask_eq_exp_minus_1)
qed

lemma int_and_mask31: "(v::int) AND 0x7FFFFFFF = v mod 2 ^ 31"
proof -
  have "v AND mask 31 = take_bit 31 v" by (simp add: take_bit_eq_mask)
  also have "\<dots> = v mod 2 ^ 31" by (simp add: take_bit_eq_mod)
  finally show ?thesis by (simp add: mask_eq_exp_minus_1)
qed

lemma be_nat_4: "be_nat [b0, b1, b2, b3] = unat b0 * 256 ^ 3 + unat b1 * 256 ^ 2 + unat b2 * 256 + unat b3"
  by (simp add: be_nat_def)

lemma slice4:
  assumes "length h = 20" "off < 16"
  shows "take 4 (drop off h) = [h ! off, h ! (off + 1), h ! (off + 2), h ! (off + 3)]"
proof -
  have "length (take 4 (drop off h)) = 4" using assms by simp
  moreover have "\<And>i. i < 4 \<Longrightarrow> take 4 (drop off h) ! i = h ! (off + i)" using assms by simp
  ultimately show ?thesis
    by (intro nth_equalityI) (auto simp: less_Suc_eq numeral_eq_Suc nth_Cons')
qed

lemma generate_otp_code_at:
  assumes "0 \<le> t" "t < 2 ^ 64"
  shows "generate_otp cfg key t = Inr (code_at (otp_digits cfg) key t)"
proof -
  define h where "h = hmac sha1 key (be_bytes 8 (nat t))"
  define off where "off = unat (last h) mod 16"
  have len: "length h = 20" by (simp add: h_def length_hmac_sha1)
  have off: "off < 16" by (simp add: off_def)
  have ne: "h \<noteq> []" using len by auto
  have sl: "take 4 (drop off h) = [h ! off, h ! (off + 1), h ! (off + 2), h ! (off + 3)]"
    using len off by (rule slice4)
  have un: "struct_unpack_I (take 4 (drop off h)) =
      Inr (int (unat (h ! off) * 256 ^ 3 + unat (h ! (off + 1)) * 256 ^ 2
             + unat (h ! (off + 2)) * 256 + unat (h ! (off + 3))))"
    unfolding sl struct_unpack_I_def be_nat_4 by simp
  have "generate_otp cfg key t =
      Inr ((int (unat (h ! off) * 256 ^ 3 + unat (h ! (off + 1)) * 256 ^ 2
             + unat (h ! (off + 2)) * 256 + unat (h ! (off + 3))) mod 2 ^ 31) mod 10 ^ otp_digits cfg)"
    using assms ne un
    by (simp add: generate_otp_def struct_pack_Q_def h_def [symmetric] nat_and_15
        off_def [symmetric] int_and_mask31 Let_def)
  also have "\<dots> = Inr (code_at (otp_digits cfg) key t)"
    by (simp add: code_at_def dynamic_truncation_def h_def [symmetric] off_def [symmetric]
        Let_def zmod_int)
  finally show ?thesis .
qed

lemma generate_otp_out_of_range:
  "t < 0 \<or> 2 ^ 64 \<le> t \<Longrightarrow> generate_otp cfg key t = Inl StructError"
  by (auto simp: generate_otp_def struct_pack_Q_def)

lemma generate_otp_Inr:
  assumes "generate_otp cfg key t = Inr c"
  shows "0 \<le> t \<and> t < 2 ^ 64 \<and> c = code_at (otp_digits cfg) key t"
proof -
  have "\<not> (t < 0 \<or> 2 ^ 64 \<le> t)"
    using assms generate_otp_out_of_range [of t cfg key] by auto
  then have r: "0 \<le> t" "t < 2 ^ 64" by simp_all
  then show ?thesis using assms generate_otp_code_at [OF r, of cfg key] by simp
qed

lemma code_at_range: "0 \<le> code_at d key t \<and> code_at d key t < 10 ^ d"
proof -
  have "dynamic_truncation (hmac sha1 key (be_bytes 8 (nat t))) mod 10 ^ d < 10 ^ d"
    by simp
  then have "int (dynamic_truncation (hmac sha1 key (be_bytes 8 (nat t))) mod 10 ^ d) < int (10 ^ d)"
    by (simp only: of_nat_less_iff)
  then show ?thesis by (simp add: code_at_def)
qed


lemma verify_loop_in_range:
  "(\<And>k. k \<in> set ks \<Longrightarrow> 0 \<le> step + k \<and> step + k < 2 ^ 64) \<Longrightarrow>
   verify_loop cfg key otp step ks =
     Inr (\<exists>k \<in> set ks. otp = code_at (otp_digits cfg) key (step + k))"
proof (induction ks)
  case Nil
  show ?case by simp
next
  case (Cons k ks)
  have here: "generate_otp cfg key (step + k) = Inr (code_at (otp_digits cfg) key (step + k))"
    using Cons.prems [of k] by (simp add: generate_otp_code_at)
  have rest: "verify_loop cfg key otp step ks =
      Inr (\<exists>k \<in> set ks. otp = code_at (otp_digits cfg) key (step + k))"
    using Cons.prems by (intro Cons.IH) simp
  show ?case by (auto simp: here rest)
qed

lemma verify_loop_first_out_of_range:
  "step + k < 0 \<or> 2 ^ 64 \<le> step + k \<Longrightarrow> verify_loop cfg key otp step (k # ks) = Inl StructError"
  by (simp add: generate_otp_out_of_range)

lemma window_steps_in_range:
  assumes "w \<le> step" "step + w < 2 ^ 64" "k \<in> set [- w .. w]"
  shows "0 \<le> step + k \<and> step + k < (2::int) ^ 64"
  using assms by auto

lemma verify_totp_in_range:
  assumes "otp_interval cfg \<noteq> 0"
    and "otp_window cfg \<le> current_time_step (otp_interval cfg) now"
    and "current_time_step (otp_interval cfg) now + otp_window cfg < 2 ^ 64"
  shows "verify_totp cfg key otp now = Inr (spec_verify cfg key otp now)"
proof -
  have "verify_loop cfg key otp (current_time_step (otp_interval cfg) now)
          [- otp_window cfg .. otp_window cfg] =
        Inr (\<exists>k \<in> set [- otp_window cfg .. otp_window cfg].
               otp = code_at (otp_digits cfg) key (current_time_step (otp_interval cfg) now + k))"
    by (rule verify_loop_in_range) (use assms(2,3) in auto)
  then show ?thesis
    using assms(1) by (simp add: verify_totp_def spec_verify_def current_time_step_def)
qed

lemma verify_totp_before_window:
  assumes "otp_interval cfg \<noteq> 0" "0 \<le> otp_window cfg"
    and "current_time_step (otp_interval cfg) now < otp_window cfg"
  shows "verify_totp cfg key otp now = Inl StructError"
proof -
  define step where "step = current_time_step (otp_interval cfg) now"
  have "[- otp_window cfg .. otp_window cfg] = - otp_window cfg # [- otp_window cfg + 1 .. otp_window cfg]"
    using assms(2) by (simp add: upto_rec1)
  moreover have "verify_loop cfg key otp step (- otp_window cfg # [- otp_window cfg + 1 .. otp_window cfg])
      = Inl StructError"
    by (rule verify_loop_first_out_of_range) (use assms(3) in \<open>simp add: step_def\<close>)
  ultimately show ?thesis
    using assms(1) by (simp only: verify_totp_def current_time_step_def step_def if_False)
qed

section \<open>The time step of a clock reading\<close>

text \<open>
  The floor division of doubles returns the floor of the exact quotient when the clock reading
  and the interval are below \<open>2 ^ 53\<close> in absolute value: the interval is a double; the
  multiple of the interval that \<open>fmod\<close> takes off, and its quotient, are integers of at most
  53 bits, so neither the subtraction nor the division rounds.
\<close>

lemma bit_length_bounds: "0 < n \<Longrightarrow> 2 ^ (bit_length n - 1) \<le> n \<and> n < 2 ^ bit_length n"
proof (induction n rule: bit_length.induct)
  case (1 n)
  show ?case
  proof (cases "n div 2 = 0")
    case True
    then have "n = 1" using 1(2) by auto
    then show ?thesis by (simp add: bit_length.simps [of "Suc 0"] bit_length.simps [of 0])
  next
    case False
    then have ih: "2 ^ (bit_length (n div 2) - 1) \<le> n div 2" "n div 2 < 2 ^ bit_length (n div 2)"
      using 1 by auto
    have pos: "0 < bit_length (n div 2)"
      using False by (simp add: bit_length.simps [of "n div 2"])
    have b: "bit_length n = Suc (bit_length (n div 2))"
      using 1(2) by (simp add: bit_length.simps [of n])
    have "2 ^ (bit_length n - 1) = 2 * 2 ^ (bit_length (n div 2) - 1)"
      using pos by (simp add: b power_eq_if)
    also have "\<dots> \<le> 2 * (n div 2)" using ih(1) by simp
    also have "\<dots> \<le> n" by simp
    finally have lo: "2 ^ (bit_length n - 1) \<le> n" .
    have "n < 2 * (n div 2) + 2" by presburger
    also have "\<dots> \<le> 2 * 2 ^ bit_length (n div 2)" using ih(2) by simp
    finally have "n < 2 ^ bit_length n" by (simp add: b)
    then show ?thesis using lo by simp
  qed
qed

lemma bit_length_le: "0 < n \<Longrightarrow> n < 2 ^ k \<Longrightarrow> bit_length n \<le> k"
proof (rule ccontr)
  assume n: "0 < n" "n < 2 ^ k" and "\<not> bit_length n \<le> k"
  then have "k \<le> bit_length n - 1" by simp
  then have "(2::nat) ^ k \<le> 2 ^ (bit_length n - 1)" by (rule power_increasing) simp
  also have "\<dots> \<le> n" using bit_length_bounds [OF n(1)] by (rule conjunct1)
  finally show False using n(2) by simp
qed

lemma bit_length_numeral:
  "bit_length (numeral n) = Suc (bit_length (numeral n div 2))"
  "bit_length (Suc 0) = Suc 0" "bit_length 0 = 0"
  by (simp_all add: bit_length.simps [of "numeral n"] bit_length.simps [of "Suc 0"]
      bit_length.simps [of 0])

lemma round_half_even_int [simp]: "round_half_even (of_int m) = m"
  by (simp add: round_half_even_def)

text \<open>An integer of at most 53 bits is a double.\<close>

lemma round_double_int:
  assumes "\<bar>n\<bar> \<le> 2 ^ 53"
  shows "round_double (of_int n) = of_int n"
proof (cases "n = 0")
  case True
  then show ?thesis by (simp add: round_double_def)
next
  case False
  define a where "a = nat \<bar>n\<bar>"
  have a: "0 < a" "a \<le> 2 ^ 53" "int a = \<bar>n\<bar>"
    using False assms by (simp_all add: a_def nat_le_iff)
  define e where "e = int (bit_length a) - 53"
  have il: "ilog2 \<bar>of_int n\<bar> = int (bit_length a) - 1"
  proof -
    have "1 \<le> \<bar>n\<bar>" using False by simp
    then have "(1::real) \<le> of_int \<bar>n\<bar>" by (simp only: of_int_1_le_iff)
    then have "(1::real) \<le> \<bar>of_int n\<bar>" by simp
    moreover have "nat \<lfloor>\<bar>of_int n :: real\<bar>\<rfloor> = a"
      by (simp add: a_def flip: of_int_abs)
    ultimately show ?thesis by (simp add: ilog2_def)
  qed
  have bl: "1 \<le> bit_length a" using a(1) by (simp add: bit_length.simps [of a])
  have m: "max (ilog2 \<bar>of_int n\<bar> - 52) (- 1074) = e"
    using bl by (simp add: il e_def)
  have "\<exists>m. of_int n / scale2 e = (of_int m :: real)"
  proof (cases "e \<le> 0")
    case True
    then have "scale2 e = (if e = 0 then 1 else 1 / 2 ^ nat (- e))"
      by (simp add: scale2_def)
    then have "of_int n / scale2 e = (of_int (n * 2 ^ nat (- e)) :: real)"
      by simp
    then show ?thesis by blast
  next
    case pos: False
    then have "54 \<le> bit_length a" by (simp add: e_def)
    then have "\<not> a < 2 ^ 53" using bit_length_le [OF a(1), of 53] by auto
    then have a53: "a = 2 ^ 53" using a(2) by simp
    then have "a < 2 ^ 54" by simp
    then have "bit_length a \<le> 54" using bit_length_le [OF a(1), of 54] by simp
    then have e1: "e = 1" using pos by (simp add: e_def)
    have "\<bar>n\<bar> = 2 ^ 53" using a(3) a53 by simp
    then have "n = 2 ^ 53 \<or> n = - (2 ^ 53)" by (simp add: abs_if split: if_splits)
    then have "of_int n / scale2 e = (of_int (n div 2) :: real)"
      by (auto simp: e1 scale2_def)
    then show ?thesis by blast
  qed
  then obtain m where m': "of_int n / scale2 e = (of_int m :: real)" by blast
  have nz: "scale2 e \<noteq> 0" by (simp add: scale2_def)
  have "round_double (of_int n) = of_int (round_half_even (of_int n / scale2 e)) * scale2 e"
    using False by (simp add: round_double_def m Let_def)
  also have "\<dots> = of_int n / scale2 e * scale2 e" by (simp only: m' round_half_even_int)
  also have "\<dots> = of_int n" using nz by simp
  finally show ?thesis .
qed

lemma float_floor_div_exact:
  assumes w: "w \<noteq> 0" "\<bar>w\<bar> < 2 ^ 53" and vx: "\<bar>vx\<bar> < 2 ^ 53"
  shows "float_floor_div vx w = Inr \<lfloor>vx / of_int w\<rfloor>"
proof -
  define q where "q = vx / of_int w"
  define k where "k = (if 0 \<le> q then \<lfloor>q\<rfloor> else \<lceil>q\<rceil>)"
  have wr: "(of_int w :: real) \<noteq> 0" using w(1) by simp
  have wx: "round_double (of_int w) = of_int w"
    using w(2) by (intro round_double_int) simp
  have kq: "\<bar>of_int k :: real\<bar> \<le> \<bar>q\<bar>"
  proof (cases "0 \<le> q")
    case True
    then have "0 \<le> k" "of_int k \<le> q" by (simp_all add: k_def)
    then show ?thesis using True by simp
  next
    case False
    then have "k \<le> 0" "q \<le> of_int k" by (simp_all add: k_def ceiling_le_iff)
    then show ?thesis using False by simp
  qed
  have w1: "(1::real) \<le> \<bar>of_int w\<bar>"
  proof -
    have "1 \<le> \<bar>w\<bar>" using w(1) by simp
    then have "(1::real) \<le> of_int \<bar>w\<bar>" by (simp only: of_int_1_le_iff)
    then show ?thesis by simp
  qed
  have "q * of_int w = vx" using wr by (simp add: q_def)
  then have "\<bar>q * of_int w\<bar> = \<bar>vx\<bar>" by simp
  then have qv: "\<bar>q\<bar> * \<bar>of_int w\<bar> = \<bar>vx\<bar>" by (simp only: abs_mult)
  have "\<bar>of_int (k * w) :: real\<bar> = \<bar>of_int k\<bar> * \<bar>of_int w\<bar>" by (simp add: abs_mult)
  also have "\<dots> \<le> \<bar>q\<bar> * \<bar>of_int w\<bar>" using kq by (rule mult_right_mono) simp
  finally have kwv: "\<bar>of_int (k * w) :: real\<bar> \<le> \<bar>vx\<bar>" by (simp only: qv)
  then have "(of_int \<bar>k * w\<bar> :: real) < of_int (2 ^ 53)" using vx by simp
  then have kw: "\<bar>k * w\<bar> < 2 ^ 53" by (simp only: of_int_less_iff)
  have "\<bar>of_int k :: real\<bar> \<le> \<bar>of_int k\<bar> * \<bar>of_int w\<bar>"
    using w1 by (simp add: mult_le_cancel_left1)
  also have "\<dots> = \<bar>of_int (k * w)\<bar>" by (simp add: abs_mult)
  finally have "(of_int \<bar>k\<bar> :: real) < of_int (2 ^ 53)" using kwv vx by simp
  then have kb: "\<bar>k\<bar> < 2 ^ 53" by (simp only: of_int_less_iff)
  have md: "fmod vx (of_int w) = vx - of_int k * of_int w"
    by (simp add: fmod_def k_def q_def)
  have sub: "vx - fmod vx (of_int w) = of_int (k * w)" by (simp add: md)
  have r1: "round_double (vx - fmod vx (of_int w)) = of_int (k * w)"
    unfolding sub using kw by (intro round_double_int) simp
  have quo: "(of_int (k * w) :: real) / of_int w = of_int k" using wr by simp
  have r2: "round_double (round_double (vx - fmod vx (of_int w)) / of_int w) = of_int k"
    unfolding r1 quo using kb by (intro round_double_int) simp
  have r3: "round_double (of_int k - 1) = of_int (k - 1)"
  proof -
    have "\<bar>k - 1\<bar> \<le> 2 ^ 53" using kb by simp
    then have "round_double (of_int (k - 1)) = of_int (k - 1)" by (rule round_double_int)
    then show ?thesis by simp
  qed
  have mdq: "fmod vx (of_int w) = of_int w * (q - of_int k)"
    using wr by (simp add: md q_def algebra_simps)
  have cond: "(fmod vx (of_int w) \<noteq> 0 \<and> ((of_int w :: real) < 0) \<noteq> (fmod vx (of_int w) < 0))
      = (q < 0 \<and> q \<noteq> of_int k)"
  proof (cases "0 \<le> q")
    case True
    then have "0 \<le> q - of_int k" by (simp add: k_def)
    then show ?thesis
      using True wr unfolding mdq
      by (auto simp: mult_less_0_iff zero_less_mult_iff not_less)
  next
    case False
    then have "q - of_int k \<le> 0" by (simp add: k_def)
    then show ?thesis
      using False wr unfolding mdq
      by (auto simp: mult_less_0_iff zero_less_mult_iff not_less)
  qed
  have fl: "(if q < 0 \<and> q \<noteq> of_int k then k - 1 else k) = \<lfloor>q\<rfloor>"
  proof (cases "0 \<le> q")
    case True
    then show ?thesis by (simp add: k_def)
  next
    case False
    then have k: "k = \<lceil>q\<rceil>" by (simp add: k_def)
    show ?thesis
    proof (cases "q = of_int k")
      case True
      then have "\<lfloor>q\<rfloor> = k" by (metis floor_of_int)
      then show ?thesis using True by simp
    next
      case ne: False
      have "q \<le> of_int k" unfolding k by (rule le_of_int_ceiling)
      then have "q < of_int k" using ne by simp
      moreover have "of_int k - 1 < q" unfolding k by linarith
      ultimately have "\<lfloor>q\<rfloor> = k - 1" by (simp add: floor_unique)
      then show ?thesis using False ne by simp
    qed
  qed
  have over: "\<not> 2 ^ 1024 - 2 ^ 970 \<le> \<bar>w\<bar>" using w(2) by simp
  have "float_floor_div vx w = Inr (if q < 0 \<and> q \<noteq> of_int k then k - 1 else k)"
    unfolding float_floor_div_def Let_def wx using w(1) over
    by (simp only: r2 cond r3 if_False) (simp only: if_distrib [of floor] floor_of_int, simp)
  then have "float_floor_div vx w = Inr \<lfloor>q\<rfloor>" by (simp only: fl)
  then show ?thesis by (simp only: q_def)
qed

text \<open>
  Below \<open>2 ^ 53\<close> the time step the code computes is the time step of the specification and
  of \<open>verify_totp\<close>; at \<open>1e18\<close> seconds it is not.
\<close>

lemma time_step_double:
  assumes "otp_interval cfg \<noteq> 0" and "\<bar>otp_interval cfg\<bar> < 2 ^ 53" and "\<bar>now\<bar> < 2 ^ 53"
  shows "float_floor_div now (otp_interval cfg) = Inr (current_time_step (otp_interval cfg) now)"
  unfolding current_time_step_def using assms by (rule float_floor_div_exact)

lemma round_double_1e18:
  "round_double 999999999999999990 = 1000000000000000000"
  "round_double (100000000000000000 / 3) = 33333333333333332"
  by (simp_all add: round_double_def ilog2_def scale2_def round_half_even_def bit_length_numeral
      Let_def)

lemma time_step_double_1e18:
  "float_floor_div 1000000000000000000 30 = Inr 33333333333333332"
  "current_time_step 30 1000000000000000000 = 33333333333333333"
proof -
  have rd30: "round_double 30 = 30"
    using round_double_int [of 30] by simp
  have fm: "fmod 1000000000000000000 30 = 10"
    by (simp add: fmod_def)
  show "float_floor_div 1000000000000000000 30 = Inr 33333333333333332"
    unfolding float_floor_div_def Let_def
    by (simp only: of_int_numeral rd30 fm) (simp add: round_double_1e18)
  show "current_time_step 30 1000000000000000000 = 33333333333333333"
    by (simp add: current_time_step_def)
qed

section \<open>The claims about the TOTP engine\<close>

lemma cfg_M_simps:
  "otp_digits cfg_M = 6" "otp_interval cfg_M = 30" "otp_window cfg_M = 1"
  "master_secret cfg_M = ''M''"
  by (simp_all add: cfg_M_def default_settings_def)

text \<open>
  Claim C1.  For every secret and every time step of the unsigned 64-bit range, the generated
  code is the dynamic-truncation value \<open>code_at\<close> of the specification (HMAC-SHA1 of the
  8-byte big-endian time step, offset from the low nibble of the last digest byte, four bytes
  read big-endian, top bit cleared, modulo \<open>10 ^ digits\<close>); being a function of the secret
  and the time step it is deterministic, and it lies in \<open>[0, 10 ^ digits)\<close>.
\<close>
theorem generate_otp_dynamic_truncation:
  "0 \<le> t \<Longrightarrow> t < 2 ^ 64 \<Longrightarrow>
   generate_otp cfg key t = Inr (code_at (otp_digits cfg) key t)
   \<and> 0 \<le> code_at (otp_digits cfg) key t
   \<and> code_at (otp_digits cfg) key t < 10 ^ otp_digits cfg"
  using code_at_range [of "otp_digits cfg" key t] by (simp add: generate_otp_code_at)

text \<open>Witness for C1: the RFC 4226 secret at counter 1.\<close>

theorem generate_otp_rfc4226_witness:
  "generate_otp cfg_M (encode ''12345678901234567890'') 1 = Inr 287082
   \<and> code_at 6 (encode ''12345678901234567890'') 1 = 287082
   \<and> (0::int) \<le> 287082 \<and> (287082::int) < 10 ^ 6"
  using generate_otp_dynamic_truncation [of 1 cfg_M "encode ''12345678901234567890''"]
  by (simp add: otp_rfc4226_1 cfg_M_simps)

lemma window_1_cases: "(\<exists>k \<in> set [- 1 .. 1 :: int]. P k) = (P (- 1) \<or> P 0 \<or> P 1)"
  by (simp add: upto_window_1)

lemma code_at_D1:
  "code_at 6 key_D1 0 = 686598"
  "code_at 6 key_D1 1 = 681594"
  "code_at 6 key_D1 2 = 18356"
  "code_at 6 key_D1 3 = 762939"
  "code_at 6 key_D1 4 = 691508"
  "code_at 6 key_D1 404360 = 835334"
  "code_at 6 key_D1 404361 = 835334"
  using generate_otp_code_at [of 0 cfg_M key_D1] generate_otp_code_at [of 1 cfg_M key_D1]
    generate_otp_code_at [of 2 cfg_M key_D1] generate_otp_code_at [of 3 cfg_M key_D1]
    generate_otp_code_at [of 4 cfg_M key_D1]
    generate_otp_code_at [of 404360 cfg_M key_D1] generate_otp_code_at [of 404361 cfg_M key_D1]
  by (simp_all add: otp_D1_0 otp_D1_1 otp_D1_2 otp_D1_3 otp_D1_4 otp_D1_404360 otp_D1_404361
      cfg_M_simps)

text \<open>
  Claim C2 as stated (for every time \<open>now\<close>, verification returns true iff the candidate
  is the code of a step of the window) fails five seconds after the epoch: the candidate
  is the code of the current step 0, and verification raises instead of returning true.
\<close>
theorem verify_totp_epoch_counterexample:
  "verify_totp cfg_M key_D1 686598 5 = Inl StructError
   \<and> spec_verify cfg_M key_D1 686598 5"
proof
  show "verify_totp cfg_M key_D1 686598 5 = Inl StructError"
    by (rule verify_totp_before_window) (simp_all add: cfg_M_simps current_time_step_def)
  have "(0::int) \<in> set [- 1 .. 1]" by simp
  moreover have "686598 = code_at 6 key_D1 (current_time_step 30 5 + 0)"
    by (simp add: current_time_step_def code_at_D1)
  ultimately show "spec_verify cfg_M key_D1 686598 5"
    unfolding spec_verify_def cfg_M_simps by (rule rev_bexI)
qed

text \<open>
  Claim C2, amended.  When the interval is not zero, the interval and the clock reading are
  below \<open>2 ^ 53\<close> in absolute value (so that the floor division of the code is the exact
  floor), and every time step of the window lies in the unsigned 64-bit range
  (\<open>window \<le> step\<close> and \<open>step + window < 2 ^ 64\<close> for the current step), verification
  returns a boolean, and it is true iff the candidate equals \<open>code_at\<close> of \<open>step + k\<close> for
  some \<open>k\<close> with \<open>- window \<le> k \<le> window\<close>.  The result is a function of settings, secret,
  candidate and clock reading.
\<close>

theorem verify_totp_iff_window:
  assumes "otp_interval cfg \<noteq> 0" and "\<bar>otp_interval cfg\<bar> < 2 ^ 53" and "\<bar>now\<bar> < 2 ^ 53"
    and "otp_window cfg \<le> current_time_step (otp_interval cfg) now"
    and "current_time_step (otp_interval cfg) now + otp_window cfg < 2 ^ 64"
  shows "verify_totp cfg key otp now = Inr (spec_verify cfg key otp now)"
  using assms(1,4,5) by (rule verify_totp_in_range)

text \<open>
  Witness for C2 amended: for \<open>D1\<close> the code of step 1 is accepted at step 2, the code of
  step 0 is rejected at step 3, as the specification's \<open>verify\<close> says.
\<close>

theorem verify_totp_iff_window_witness:
  "otp_interval cfg_M = 30 \<and> otp_window cfg_M = 1
   \<and> current_time_step (otp_interval cfg_M) 65 = 2
   \<and> current_time_step (otp_interval cfg_M) 95 = 3
   \<and> verify_totp cfg_M key_D1 681594 65 = Inr True \<and> spec_verify cfg_M key_D1 681594 65
   \<and> verify_totp cfg_M key_D1 686598 95 = Inr False \<and> \<not> spec_verify cfg_M key_D1 686598 95"
proof -
  have yes: "spec_verify cfg_M key_D1 681594 65"
    unfolding spec_verify_def cfg_M_simps window_1_cases
    by (simp add: current_time_step_def code_at_D1)
  have no: "\<not> spec_verify cfg_M key_D1 686598 95"
    unfolding spec_verify_def cfg_M_simps window_1_cases
    by (simp add: current_time_step_def code_at_D1)
  show ?thesis
    using yes no verify_totp_iff_window [of cfg_M 65 key_D1 681594]
      verify_totp_iff_window [of cfg_M 95 key_D1 686598]
    by (simp add: cfg_M_simps current_time_step_def)
qed

lemma spec_verify_current:
  assumes "0 \<le> otp_window cfg"
  shows "spec_verify cfg key
           (code_at (otp_digits cfg) key (current_time_step (otp_interval cfg) now)) now"
proof -
  have "(0::int) \<in> set [- otp_window cfg .. otp_window cfg]" using assms by simp
  moreover have "code_at (otp_digits cfg) key (current_time_step (otp_interval cfg) now)
      = code_at (otp_digits cfg) key (current_time_step (otp_interval cfg) now + 0)"
    by simp
  ultimately show ?thesis unfolding spec_verify_def by (rule rev_bexI)
qed

text \<open>
  Claim C7 as stated fails twice for the device \<open>D1\<close>.  With window 1 a code generated at
  step \<open>T\<close> is not always rejected at times mapping to \<open>T + 2\<close>: the codes of the steps
  404360 and 404361 coincide, so the code generated at step 404360 is accepted at step
  404362.  And a code generated at the current step is not accepted at every time: five
  seconds after the epoch verification raises.
\<close>

theorem totp_collision_counterexample:
  "client_generate_otp cfg_M key_D1 12130800 = Inr 835334
   \<and> current_time_step (otp_interval cfg_M) 12130800 = 404360
   \<and> current_time_step (otp_interval cfg_M) 12130860 = 404360 + 2
   \<and> verify_totp cfg_M key_D1 835334 12130860 = Inr True
   \<and> client_generate_otp cfg_M key_D1 5 = Inr 686598
   \<and> verify_totp cfg_M key_D1 686598 5 = Inl StructError"
  by (simp add: client_generate_otp_def verify_totp_def current_time_step_def cfg_M_simps
      upto_window_1 otp_D1_0 otp_D1_404360 otp_D1_404361 generate_otp_out_of_range)

lemma client_generate_otp_Inr:
  assumes "client_generate_otp cfg key now = Inr c"
  shows "otp_interval cfg \<noteq> 0
       \<and> generate_otp cfg key (current_time_step (otp_interval cfg) now) = Inr c"
  using assms by (auto simp: client_generate_otp_def current_time_step_def split: if_splits)

text \<open>
  Claim C7, amended.  Let \<open>c\<close> be the code the client generates at the time \<open>now0\<close>, of
  time step \<open>T\<close>, and let the verification run at the time \<open>now\<close>, of time step \<open>step\<close>, the
  interval and both clock readings below \<open>2 ^ 53\<close> in absolute value and the steps of the
  window in the unsigned 64-bit range.  If \<open>step = T\<close> the code is accepted, for every window
  \<open>\<ge> 0\<close>.  With window 1 it is accepted if \<open>step\<close> is \<open>T - 1\<close> or \<open>T + 1\<close>; at \<open>step = T + 2\<close>
  it is rejected exactly when it differs from the codes generated for the steps \<open>T + 1\<close>,
  \<open>T + 2\<close> and \<open>T + 3\<close>, and at \<open>step = T - 2\<close> exactly when it differs from the codes
  generated for the steps \<open>T - 3\<close>, \<open>T - 2\<close> and \<open>T - 1\<close>.
\<close>

theorem totp_round_trip_and_boundary:
  assumes "otp_interval cfg \<noteq> 0" and "\<bar>otp_interval cfg\<bar> < 2 ^ 53"
    and "\<bar>now0\<bar> < 2 ^ 53" and "\<bar>now\<bar> < 2 ^ 53"
    and gen: "client_generate_otp cfg key now0 = Inr c"
    and T: "T = current_time_step (otp_interval cfg) now0"
    and step: "step = current_time_step (otp_interval cfg) now"
    and w: "0 \<le> otp_window cfg" "otp_window cfg \<le> step" "step + otp_window cfg < 2 ^ 64"
  shows "(step = T \<longrightarrow> verify_totp cfg key c now = Inr True)
    \<and> (otp_window cfg = 1 \<longrightarrow>
         (step = T - 1 \<or> step = T + 1 \<longrightarrow> verify_totp cfg key c now = Inr True)
       \<and> (step = T + 2 \<longrightarrow>
            verify_totp cfg key c now =
              Inr (generate_otp cfg key (T + 1) = Inr c
                 \<or> generate_otp cfg key (T + 2) = Inr c
                 \<or> generate_otp cfg key (T + 3) = Inr c))
       \<and> (step = T - 2 \<longrightarrow>
            verify_totp cfg key c now =
              Inr (generate_otp cfg key (T - 3) = Inr c
                 \<or> generate_otp cfg key (T - 2) = Inr c
                 \<or> generate_otp cfg key (T - 1) = Inr c)))"
proof -
  have c: "c = code_at (otp_digits cfg) key T"
    using client_generate_otp_Inr [OF gen] generate_otp_Inr [of cfg key T c] by (simp add: T)
  have v: "verify_totp cfg key c now = Inr (spec_verify cfg key c now)"
    using assms(1) w(2,3) unfolding step by (rule verify_totp_in_range)
  have same: "step = T \<longrightarrow> verify_totp cfg key c now = Inr True"
  proof
    assume "step = T"
    then have "c = code_at (otp_digits cfg) key (current_time_step (otp_interval cfg) now)"
      by (simp add: c step)
    then have "spec_verify cfg key c now"
      using spec_verify_current [OF w(1), of key now] by simp
    then show "verify_totp cfg key c now = Inr True" by (simp add: v)
  qed
  have w1: "spec_verify cfg key c now =
      (c = code_at (otp_digits cfg) key (step - 1)
       \<or> c = code_at (otp_digits cfg) key step
       \<or> c = code_at (otp_digits cfg) key (step + 1))" if "otp_window cfg = 1"
    unfolding spec_verify_def that step [symmetric] window_1_cases by simp
  have g: "(generate_otp cfg key (step + k) = Inr c) = (c = code_at (otp_digits cfg) key (step + k))"
    if "otp_window cfg = 1" "k = - 1 \<or> k = 0 \<or> k = 1" for k
  proof -
    have "0 \<le> step + k" "step + k < 2 ^ 64" using that w by auto
    then have "generate_otp cfg key (step + k) = Inr (code_at (otp_digits cfg) key (step + k))"
      by (rule generate_otp_code_at)
    then show ?thesis by auto
  qed
  have near: "otp_window cfg = 1 \<longrightarrow>
      (step = T - 1 \<or> step = T + 1 \<longrightarrow> verify_totp cfg key c now = Inr True)"
  proof (intro impI)
    assume one: "otp_window cfg = 1" and "step = T - 1 \<or> step = T + 1"
    then have "T = step + 1 \<or> T = step - 1" by auto
    then have "c = code_at (otp_digits cfg) key (step - 1)
        \<or> c = code_at (otp_digits cfg) key (step + 1)"
      using c by auto
    then have "spec_verify cfg key c now"
      unfolding w1 [OF one] by blast
    then show "verify_totp cfg key c now = Inr True" by (simp add: v)
  qed
  have far: "verify_totp cfg key c now =
              Inr (generate_otp cfg key (step - 1) = Inr c
                 \<or> generate_otp cfg key step = Inr c
                 \<or> generate_otp cfg key (step + 1) = Inr c)" if one: "otp_window cfg = 1"
  proof -
    have "generate_otp cfg key (step - 1) = Inr c \<longleftrightarrow> c = code_at (otp_digits cfg) key (step - 1)"
      using g [OF one, of "- 1"] by simp
    moreover have "generate_otp cfg key step = Inr c \<longleftrightarrow> c = code_at (otp_digits cfg) key step"
      using g [OF one, of 0] by simp
    moreover have "generate_otp cfg key (step + 1) = Inr c \<longleftrightarrow> c = code_at (otp_digits cfg) key (step + 1)"
      using g [OF one, of 1] by simp
    ultimately show ?thesis
      using w1 [OF one] by (simp add: v)
  qed
  have after: "otp_window cfg = 1 \<longrightarrow> step = T + 2 \<longrightarrow>
            verify_totp cfg key c now =
              Inr (generate_otp cfg key (T + 1) = Inr c
                 \<or> generate_otp cfg key (T + 2) = Inr c
                 \<or> generate_otp cfg key (T + 3) = Inr c)"
  proof (intro impI)
    assume one: "otp_window cfg = 1" and s: "step = T + 2"
    have e: "step - 1 = T + 1" "step + 1 = T + 3" using s by simp_all
    show "verify_totp cfg key c now =
              Inr (generate_otp cfg key (T + 1) = Inr c
                 \<or> generate_otp cfg key (T + 2) = Inr c
                 \<or> generate_otp cfg key (T + 3) = Inr c)"
      using far [OF one] unfolding e unfolding s .
  qed
  have before: "otp_window cfg = 1 \<longrightarrow> step = T - 2 \<longrightarrow>
            verify_totp cfg key c now =
              Inr (generate_otp cfg key (T - 3) = Inr c
                 \<or> generate_otp cfg key (T - 2) = Inr c
                 \<or> generate_otp cfg key (T - 1) = Inr c)"
  proof (intro impI)
    assume one: "otp_window cfg = 1" and s: "step = T - 2"
    have e: "step - 1 = T - 3" "step + 1 = T - 1" using s by simp_all
    show "verify_totp cfg key c now =
              Inr (generate_otp cfg key (T - 3) = Inr c
                 \<or> generate_otp cfg key (T - 2) = Inr c
                 \<or> generate_otp cfg key (T - 1) = Inr c)"
      using far [OF one] unfolding e unfolding s .
  qed
  show ?thesis using same near after before by blast
qed

text \<open>
  Witness for C7 amended: the code \<open>D1\<close> generates at time 30, in step 1, is accepted at
  the times 35 and 65, in the steps 1 and 2, and rejected at time 95, in step 3, where the
  codes of the steps 2, 3 and 4 differ from it.
\<close>

theorem totp_round_trip_and_boundary_witness:
  "client_generate_otp cfg_M key_D1 30 = Inr 681594
   \<and> otp_interval cfg_M = 30 \<and> otp_window cfg_M = 1
   \<and> current_time_step (otp_interval cfg_M) 30 = 1
   \<and> current_time_step (otp_interval cfg_M) 35 = 1
   \<and> verify_totp cfg_M key_D1 681594 35 = Inr True
   \<and> current_time_step (otp_interval cfg_M) 65 = 1 + 1
   \<and> verify_totp cfg_M key_D1 681594 65 = Inr True
   \<and> current_time_step (otp_interval cfg_M) 95 = 1 + 2
   \<and> generate_otp cfg_M key_D1 (1 + 1) = Inr 18356
   \<and> generate_otp cfg_M key_D1 (1 + 2) = Inr 762939
   \<and> generate_otp cfg_M key_D1 (1 + 3) = Inr 691508
   \<and> verify_totp cfg_M key_D1 681594 95 = Inr False"
proof -
  have gen: "client_generate_otp cfg_M key_D1 30 = Inr 681594"
    by (simp add: client_generate_otp_def cfg_M_simps otp_D1_1)
  have s: "current_time_step (otp_interval cfg_M) 30 = 1"
    "current_time_step (otp_interval cfg_M) 35 = 1"
    "current_time_step (otp_interval cfg_M) 65 = 2"
    "current_time_step (otp_interval cfg_M) 95 = 3"
    by (simp_all add: cfg_M_simps current_time_step_def)
  have b: "otp_interval cfg_M \<noteq> 0" "\<bar>otp_interval cfg_M\<bar> < 2 ^ 53"
    "\<bar>30 :: real\<bar> < 2 ^ 53" "\<bar>35 :: real\<bar> < 2 ^ 53" "\<bar>65 :: real\<bar> < 2 ^ 53"
    "\<bar>95 :: real\<bar> < 2 ^ 53"
    by (simp_all add: cfg_M_simps)
  have at1: "verify_totp cfg_M key_D1 681594 35 = Inr True"
    using totp_round_trip_and_boundary [OF b(1,2,3,4) gen, of 1 1] s
    by (simp add: cfg_M_simps)
  have at2: "verify_totp cfg_M key_D1 681594 65 = Inr True"
    using totp_round_trip_and_boundary [OF b(1,2,3,5) gen, of 1 2] s
    by (simp add: cfg_M_simps)
  have at3: "verify_totp cfg_M key_D1 681594 95 = Inr False"
    using totp_round_trip_and_boundary [OF b(1,2,3,6) gen, of 1 3] s
    by (simp add: cfg_M_simps otp_D1_2 otp_D1_3 otp_D1_4)
  show ?thesis using gen s at1 at2 at3 by (simp add: cfg_M_simps otp_D1_2 otp_D1_3 otp_D1_4)
qed

section \<open>The store under the operations\<close>

lemma find_active_None:
  "(find (\<lambda>d. device_id d = x \<and> is_active d) ds = None) =
     (\<forall>d \<in> set ds. device_id d = x \<longrightarrow> \<not> is_active d)"
  by (auto simp: find_None_iff)

lemma find_active_Some:
  "\<exists>d \<in> set ds. device_id d = x \<and> is_active d \<Longrightarrow>
   \<exists>dev. find (\<lambda>d. device_id d = x \<and> is_active d) ds = Some dev"
  by (cases "find (\<lambda>d. device_id d = x \<and> is_active d) ds") (auto simp: find_None_iff)

lemma find_id_None:
  "(find (\<lambda>d. device_id d = x) ds = None) = (\<forall>d \<in> set ds. device_id d \<noteq> x)"
  by (auto simp: find_None_iff)

lemma devices_log_verification [simp]:
  "devices (log_verification s x act ok ip now) = devices s"
  by (simp add: log_verification_def add_log_def)

lemma audit_logs_log_verification [simp]:
  "audit_logs (log_verification s x act ok ip now) = audit_logs s"
  by (simp add: log_verification_def add_log_def)

lemma devices_commit [simp]: "devices (commit s) = devices s"
  by (simp add: commit_def)

lemma devices_rollback [simp]: "devices (rollback s) = devices s"
  by (simp add: rollback_def)

lemma devices_add_log [simp]: "devices (add_log e s) = devices s"
  by (simp add: add_log_def)

lemma devices_update_device [simp]:
  "devices (update_device x f s) = map (\<lambda>d. if device_id d = x then f d else d) (devices s)"
  by (simp add: update_device_def)

lemma map_update_absent:
  "\<forall>d \<in> set ds. device_id d \<noteq> x \<Longrightarrow> map (\<lambda>d. if device_id d = x then f d else d) ds = ds"
  by (induction ds) simp_all

lemma filter_id_map:
  "(\<And>d. device_id (g d) = device_id d) \<Longrightarrow>
   length (filter (\<lambda>d. device_id d = x) (map g ds)) = length (filter (\<lambda>d. device_id d = x) ds)"
  by (induction ds) simp_all

lemma filter_id_absent:
  "\<forall>d \<in> set ds. device_id d \<noteq> x \<Longrightarrow> filter (\<lambda>d. device_id d = x) ds = []"
  by (induction ds) simp_all

subsection \<open>Verification\<close>

lemma verify_otp_unavailable:
  assumes "\<forall>d \<in> set (devices s). device_id d = x \<longrightarrow> \<not> is_active d"
  shows "verify_otp cfg x otp ip now s =
           (VerifyError ''Device not found or inactive'',
            log_verification s x ''INVALID_DEVICE'' False ip now)"
proof -
  have "find (\<lambda>d. device_id d = x \<and> is_active d) (devices s) = None"
    using assms by (simp add: find_active_None)
  then show ?thesis by (simp add: verify_otp_def)
qed

lemma verify_otp_limited:
  assumes "\<exists>d \<in> set (devices s). device_id d = x \<and> is_active d"
    and "10 < recent_attempts s x now"
  shows "verify_otp cfg x otp ip now s =
           (VerifyError ''Rate limit exceeded'', log_verification s x ''RATE_LIMITED'' False ip now)"
proof -
  obtain dev where "find (\<lambda>d. device_id d = x \<and> is_active d) (devices s) = Some dev"
    using find_active_Some [OF assms(1)] by blast
  then show ?thesis using assms(2) by (simp add: verify_otp_def)
qed

lemma verify_otp_checked:
  assumes "\<exists>d \<in> set (devices s). device_id d = x \<and> is_active d"
    and "recent_attempts s x now \<le> 10"
  shows "verify_otp cfg x otp ip now s =
     (case verify_totp cfg (generate_derived_key cfg x) otp now of
        Inl e \<Rightarrow> (VerifyError ''Verification failed'', rollback s)
      | Inr is_valid \<Rightarrow>
          (Verification is_valid,
           commit
             (log_verification
                (if is_valid
                 then update_device x
                        (\<lambda>d. d\<lparr>last_used := Some now, usage_count := usage_count d + 1\<rparr>) s
                 else s)
                x ''OTP_VERIFICATION'' is_valid ip now)))"
proof -
  obtain dev where "find (\<lambda>d. device_id d = x \<and> is_active d) (devices s) = Some dev"
    using find_active_Some [OF assms(1)] by blast
  then show ?thesis using assms(2) by (simp add: verify_otp_def)
qed

lemma verify_otp_not_limited:
  assumes "\<exists>d \<in> set (devices s). device_id d = x \<and> is_active d"
    and "recent_attempts s x now \<le> 10"
  shows "fst (verify_otp cfg x otp ip now s) \<noteq> VerifyError ''Rate limit exceeded''"
proof (cases "verify_totp cfg (generate_derived_key cfg x) otp now")
  case (Inl e)
  then show ?thesis using verify_otp_checked [OF assms, of cfg otp ip] by simp
next
  case (Inr b)
  then show ?thesis using verify_otp_checked [OF assms, of cfg otp ip] by simp
qed

lemma verify_otp_frame:
  "(fst (verify_otp cfg x otp ip now s) = Verification True \<longleftrightarrow>
      (\<exists>d \<in> set (devices s). device_id d = x \<and> is_active d)
      \<and> recent_attempts s x now \<le> 10
      \<and> verify_totp cfg (generate_derived_key cfg x) otp now = Inr True)
   \<and> devices (snd (verify_otp cfg x otp ip now s)) =
       (if fst (verify_otp cfg x otp ip now s) = Verification True
        then map (\<lambda>d. if device_id d = x
                       then d\<lparr>last_used := Some now, usage_count := usage_count d + 1\<rparr> else d)
               (devices s)
        else devices s)"
proof (cases "\<exists>d \<in> set (devices s). device_id d = x \<and> is_active d")
  case False
  then have "\<forall>d \<in> set (devices s). device_id d = x \<longrightarrow> \<not> is_active d" by blast
  then have r: "verify_otp cfg x otp ip now s =
      (VerifyError ''Device not found or inactive'',
       log_verification s x ''INVALID_DEVICE'' False ip now)"
    by (rule verify_otp_unavailable)
  show ?thesis unfolding r using False by simp
next
  case active: True
  show ?thesis
  proof (cases "10 < recent_attempts s x now")
    case True
    have r: "verify_otp cfg x otp ip now s =
        (VerifyError ''Rate limit exceeded'', log_verification s x ''RATE_LIMITED'' False ip now)"
      using active True by (rule verify_otp_limited)
    show ?thesis unfolding r using True by simp
  next
    case False
    then have few: "recent_attempts s x now \<le> 10" by simp
    note chk = verify_otp_checked [OF active few, of cfg otp ip]
    show ?thesis
    proof (cases "verify_totp cfg (generate_derived_key cfg x) otp now")
      case (Inl e)
      then have r: "verify_otp cfg x otp ip now s = (VerifyError ''Verification failed'', rollback s)"
        using chk by simp
      show ?thesis unfolding r using Inl by simp
    next
      case (Inr is_valid)
      show ?thesis
      proof (cases is_valid)
        case True
        then have r: "verify_otp cfg x otp ip now s =
          (Verification True,
           commit
             (log_verification
                (update_device x
                   (\<lambda>d. d\<lparr>last_used := Some now, usage_count := usage_count d + 1\<rparr>) s)
                x ''OTP_VERIFICATION'' True ip now))"
          using chk Inr by simp
        show ?thesis unfolding r using Inr True few active by simp
      next
        case notvalid: False
        then have r: "verify_otp cfg x otp ip now s =
          (Verification False, commit (log_verification s x ''OTP_VERIFICATION'' False ip now))"
          using chk Inr by simp
        show ?thesis unfolding r using Inr notvalid by simp
      qed
    qed
  qed
qed

lemma devices_verify_otp:
  "devices (snd (verify_otp cfg x otp ip now s)) =
     (if fst (verify_otp cfg x otp ip now s) = Verification True
      then map (\<lambda>d. if device_id d = x
                     then d\<lparr>last_used := Some now, usage_count := usage_count d + 1\<rparr> else d)
             (devices s)
      else devices s)"
  using verify_otp_frame [of cfg x otp ip now s] by (rule conjunct2)

subsection \<open>Registration and deactivation\<close>

lemma devices_register_device:
  "devices (snd (register_device cfg x user now s)) =
     (if \<forall>d \<in> set (devices s). device_id d \<noteq> x
      then devices s @
        [\<lparr>device_id = x, user_id = user,
          derived_key_hash = hexdigest (sha256 (generate_derived_key cfg x)),
          is_active = True, created_at = now, last_used = None,
          usage_count = 0, deactivated_at = None\<rparr>]
      else devices s)"
proof (cases "find (\<lambda>d. device_id d = x) (devices s)")
  case None
  moreover from None have "\<forall>d \<in> set (devices s). device_id d \<noteq> x"
    unfolding find_id_None .
  ultimately show ?thesis by (simp add: register_device_def)
next
  case (Some dev)
  then have "find (\<lambda>d. device_id d = x) (devices s) \<noteq> None" by simp
  then have "\<not> (\<forall>d \<in> set (devices s). device_id d \<noteq> x)"
    unfolding find_id_None .
  then show ?thesis using Some by (simp add: register_device_def)
qed

lemma devices_deactivate_device:
  "devices (snd (deactivate_device x now s)) =
     map (\<lambda>d. if device_id d = x then d\<lparr>is_active := False, deactivated_at := Some now\<rparr> else d)
       (devices s)"
proof (cases "find (\<lambda>d. device_id d = x) (devices s)")
  case None
  then have "\<forall>d \<in> set (devices s). device_id d \<noteq> x"
    unfolding find_id_None .
  then have "map (\<lambda>d. if device_id d = x then d\<lparr>is_active := False, deactivated_at := Some now\<rparr> else d)
       (devices s) = devices s"
    by (rule map_update_absent)
  then show ?thesis using None by (simp add: deactivate_device_def)
next
  case (Some dev)
  then show ?thesis by (simp add: deactivate_device_def)
qed

lemma deactivate_device_inactive:
  assumes "d \<in> set (devices (snd (deactivate_device x now s)))" "device_id d = x"
  shows "\<not> is_active d"
proof -
  obtain d0 where d: "d = (if device_id d0 = x
      then d0\<lparr>is_active := False, deactivated_at := Some now\<rparr> else d0)"
    using assms(1) unfolding devices_deactivate_device by (auto simp only: set_map image_iff)
  show ?thesis
  proof (cases "device_id d0 = x")
    case True
    then show ?thesis using d by simp
  next
    case False
    then show ?thesis using d assms(2) by simp
  qed
qed

lemma register_device_existing:
  assumes "length (filter (\<lambda>d. device_id d = x) (devices s)) = Suc n"
  shows "register_device cfg x user now s = (RegisterError ''Device already registered'', s)"
proof (cases "find (\<lambda>d. device_id d = x) (devices s)")
  case None
  then have "\<forall>d \<in> set (devices s). device_id d \<noteq> x" unfolding find_id_None .
  then have "filter (\<lambda>d. device_id d = x) (devices s) = []" by (rule filter_id_absent)
  then show ?thesis using assms by simp
next
  case (Some dev)
  then show ?thesis by (simp add: register_device_def)
qed

lemma register_device_fresh:
  assumes "\<forall>d \<in> set (devices s). device_id d \<noteq> x"
  shows "fst (register_device cfg x user now s) =
           Registered (b64encode (generate_derived_key cfg x)) x ''Device registered successfully''"
    and "length (filter (\<lambda>d. device_id d = x) (devices (snd (register_device cfg x user now s)))) = Suc 0"
proof -
  have "find (\<lambda>d. device_id d = x) (devices s) = None"
    using assms unfolding find_id_None .
  then show "fst (register_device cfg x user now s) =
           Registered (b64encode (generate_derived_key cfg x)) x ''Device registered successfully''"
    by (simp add: register_device_def)
  have "filter (\<lambda>d. device_id d = x) (devices s) = []"
    using assms by (rule filter_id_absent)
  then show "length (filter (\<lambda>d. device_id d = x)
      (devices (snd (register_device cfg x user now s)))) = Suc 0"
    using assms by (simp add: devices_register_device)
qed

subsection \<open>Rows along a run of requests\<close>

lemma rows_exec:
  assumes "length (filter (\<lambda>d. device_id d = x) (devices s)) = Suc n"
  shows "length (filter (\<lambda>d. device_id d = x) (devices (exec cfg r s))) = Suc n"
proof -
  obtain q t where r: "r = (q, t)" by (cases r)
  show ?thesis
  proof (cases q)
    case (Register y user)
    show ?thesis
    proof (cases "\<forall>d \<in> set (devices s). device_id d \<noteq> y")
      case True
      then have "filter (\<lambda>d. device_id d = y) (devices s) = []"
        by (rule filter_id_absent)
      then have "y \<noteq> x" using assms by auto
      then show ?thesis using True assms by (simp add: r Register devices_register_device)
    next
      case False
      then have "devices (exec cfg r s) = devices s"
        by (simp only: r Register exec.simps devices_register_device if_False)
      then show ?thesis using assms by simp
    qed
  next
    case (Verify y otp ip)
    have "length (filter (\<lambda>d. device_id d = x)
            (map (\<lambda>d. if device_id d = y
                       then d\<lparr>last_used := Some t, usage_count := usage_count d + 1\<rparr> else d)
               (devices s))) = length (filter (\<lambda>d. device_id d = x) (devices s))"
      by (rule filter_id_map) simp
    then show ?thesis using assms by (simp add: r Verify devices_verify_otp)
  next
    case (Deactivate y)
    have "length (filter (\<lambda>d. device_id d = x)
            (map (\<lambda>d. if device_id d = y
                       then d\<lparr>is_active := False, deactivated_at := Some t\<rparr> else d)
               (devices s))) = length (filter (\<lambda>d. device_id d = x) (devices s))"
      by (rule filter_id_map) simp
    then show ?thesis using assms by (simp add: r Deactivate devices_deactivate_device)
  qed
qed

lemma rows_run:
  "length (filter (\<lambda>d. device_id d = x) (devices s)) = Suc n \<Longrightarrow>
   length (filter (\<lambda>d. device_id d = x) (devices (run cfg rs s))) = Suc n"
  by (induction rs arbitrary: s) (simp_all add: rows_exec)

lemma exec_row:
  assumes "i < length (devices s)"
  shows "i < length (devices (exec cfg (q, t) s))
    \<and> device_id (devices (exec cfg (q, t) s) ! i) = device_id (devices s ! i)
    \<and> (\<not> is_active (devices s ! i) \<longrightarrow> \<not> is_active (devices (exec cfg (q, t) s) ! i))
    \<and> (deactivated_at (devices (exec cfg (q, t) s) ! i) = deactivated_at (devices s ! i)
        \<or> q = Deactivate (device_id (devices s ! i))
          \<and> deactivated_at (devices (exec cfg (q, t) s) ! i) = Some t)"
proof (cases q)
  case (Register x user)
  then show ?thesis using assms
    by (simp add: devices_register_device nth_append)
next
  case (Verify x otp ip)
  then show ?thesis using assms
    by (simp add: devices_verify_otp)
next
  case (Deactivate x)
  then show ?thesis using assms
    by (simp add: devices_deactivate_device)
qed

lemma run_row:
  "i < length (devices s) \<Longrightarrow>
   i < length (devices (run cfg rs s))
    \<and> device_id (devices (run cfg rs s) ! i) = device_id (devices s ! i)
    \<and> (\<not> is_active (devices s ! i) \<longrightarrow> \<not> is_active (devices (run cfg rs s) ! i))
    \<and> (deactivated_at (devices (run cfg rs s) ! i) = deactivated_at (devices s ! i)
        \<or> (\<exists>t. (Deactivate (device_id (devices s ! i)), t) \<in> set rs
              \<and> deactivated_at (devices (run cfg rs s) ! i) = Some t))"
proof (induction rs arbitrary: s)
  case Nil
  then show ?case by simp
next
  case (Cons r rs)
  obtain q t where r: "r = (q, t)" by (cases r)
  define s1 where "s1 = exec cfg (q, t) s"
  have step: "i < length (devices s1)"
    "device_id (devices s1 ! i) = device_id (devices s ! i)"
    "\<not> is_active (devices s ! i) \<longrightarrow> \<not> is_active (devices s1 ! i)"
    "deactivated_at (devices s1 ! i) = deactivated_at (devices s ! i)
        \<or> q = Deactivate (device_id (devices s ! i)) \<and> deactivated_at (devices s1 ! i) = Some t"
    using exec_row [OF Cons.prems, of cfg q t] by (simp_all add: s1_def)
  have rest: "i < length (devices (run cfg rs s1))"
    "device_id (devices (run cfg rs s1) ! i) = device_id (devices s1 ! i)"
    "\<not> is_active (devices s1 ! i) \<longrightarrow> \<not> is_active (devices (run cfg rs s1) ! i)"
    "deactivated_at (devices (run cfg rs s1) ! i) = deactivated_at (devices s1 ! i)
        \<or> (\<exists>t. (Deactivate (device_id (devices s1 ! i)), t) \<in> set rs
              \<and> deactivated_at (devices (run cfg rs s1) ! i) = Some t)"
    using Cons.IH [OF step(1)] by simp_all
  have run: "run cfg (r # rs) s = run cfg rs s1" by (simp add: r s1_def)
  show ?case unfolding run using step rest r by auto
qed

lemma run_append: "run cfg (rs1 @ rs2) s = run cfg rs2 (run cfg rs1 s)"
  by (induction rs1 arbitrary: s) simp_all

lemma deactivate_device_row:
  assumes "i < length (devices s)" and "device_id (devices s ! i) = x"
  shows "fst (deactivate_device x t s) = Deactivated ''Device deactivated successfully''"
    and "deactivated_at (devices (snd (deactivate_device x t s)) ! i) = Some t"
    and "\<not> is_active (devices (snd (deactivate_device x t s)) ! i)"
proof -
  have "devices s ! i \<in> set (devices s)" using assms(1) by simp
  then have "\<not> (\<forall>d \<in> set (devices s). device_id d \<noteq> x)" using assms(2) by blast
  then have "find (\<lambda>d. device_id d = x) (devices s) \<noteq> None"
    unfolding find_id_None .
  then obtain dev where "find (\<lambda>d. device_id d = x) (devices s) = Some dev" by blast
  then show "fst (deactivate_device x t s) = Deactivated ''Device deactivated successfully''"
    by (simp add: deactivate_device_def)
  show "deactivated_at (devices (snd (deactivate_device x t s)) ! i) = Some t"
    using assms by (simp add: devices_deactivate_device)
  show "\<not> is_active (devices (snd (deactivate_device x t s)) ! i)"
    using assms by (simp add: devices_deactivate_device)
qed

text \<open>After the last deactivation request for a row, the row holds the time of that request.\<close>

lemma run_last_deactivation:
  assumes i: "i < length (devices s)"
    and rs: "rs = rs1 @ (Deactivate (device_id (devices s ! i)), t) # rs2"
    and last: "\<forall>t'. (Deactivate (device_id (devices s ! i)), t') \<notin> set rs2"
  shows "deactivated_at (devices (run cfg rs s) ! i) = Some t
       \<and> \<not> is_active (devices (run cfg rs s) ! i)"
proof -
  define x where "x = device_id (devices s ! i)"
  define s1 where "s1 = run cfg rs1 s"
  define s2 where "s2 = snd (deactivate_device x t s1)"
  have r1: "i < length (devices s1)" "device_id (devices s1 ! i) = x"
    using run_row [OF i, of cfg rs1] by (simp_all add: s1_def x_def)
  have d: "deactivated_at (devices s2 ! i) = Some t" "\<not> is_active (devices s2 ! i)"
    using deactivate_device_row(2,3) [OF r1, of t] by (simp_all add: s2_def)
  have i2: "i < length (devices s2)"
    using r1(1) by (simp add: s2_def devices_deactivate_device)
  have id2: "device_id (devices s2 ! i) = x"
    using r1 by (simp add: s2_def devices_deactivate_device)
  have split: "run cfg rs s = run cfg rs2 s2"
    by (simp add: rs run_append s1_def s2_def x_def)
  have none: "\<not> (\<exists>t'. (Deactivate (device_id (devices s2 ! i)), t') \<in> set rs2)"
    using last by (simp add: id2 x_def)
  have "deactivated_at (devices (run cfg rs2 s2) ! i) = deactivated_at (devices s2 ! i)"
    using run_row [OF i2, of cfg rs2] none by blast
  moreover have "\<not> is_active (devices (run cfg rs2 s2) ! i)"
    using run_row [OF i2, of cfg rs2] d(2) by blast
  ultimately show ?thesis by (simp add: split d(1))
qed

lemma inactive_map:
  assumes id: "\<And>d. device_id (g d) = device_id d"
    and keep: "\<And>d. \<not> is_active d \<Longrightarrow> \<not> is_active (g d)"
    and ex: "\<exists>d \<in> set ds. device_id d = x"
    and off: "\<forall>d \<in> set ds. device_id d = x \<longrightarrow> \<not> is_active d"
  shows "(\<exists>d \<in> set (map g ds). device_id d = x)
       \<and> (\<forall>d \<in> set (map g ds). device_id d = x \<longrightarrow> \<not> is_active d)"
proof
  obtain d where "d \<in> set ds" "device_id d = x" using ex by blast
  then have "g d \<in> set (map g ds)" "device_id (g d) = x" by (simp_all add: id)
  then show "\<exists>d \<in> set (map g ds). device_id d = x" by blast
  show "\<forall>d \<in> set (map g ds). device_id d = x \<longrightarrow> \<not> is_active d"
  proof (intro ballI impI)
    fix d' assume "d' \<in> set (map g ds)" "device_id d' = x"
    then obtain d where d: "d \<in> set ds" "d' = g d" by auto
    then have "device_id d = x" using \<open>device_id d' = x\<close> by (simp add: id)
    then have "\<not> is_active d" using off d(1) by blast
    then show "\<not> is_active d'" unfolding d(2) by (rule keep)
  qed
qed

lemma inactive_exec:
  assumes ex: "\<exists>d \<in> set (devices s). device_id d = x"
    and off: "\<forall>d \<in> set (devices s). device_id d = x \<longrightarrow> \<not> is_active d"
  shows "(\<exists>d \<in> set (devices (exec cfg r s)). device_id d = x)
       \<and> (\<forall>d \<in> set (devices (exec cfg r s)). device_id d = x \<longrightarrow> \<not> is_active d)"
proof -
  obtain q t where r: "r = (q, t)" by (cases r)
  show ?thesis
  proof (cases q)
    case (Register y user)
    show ?thesis
    proof (cases "\<forall>d \<in> set (devices s). device_id d \<noteq> y")
      case True
      then have ne: "y \<noteq> x" using ex by blast
      define new where "new = \<lparr>device_id = y, user_id = user,
          derived_key_hash = hexdigest (sha256 (generate_derived_key cfg y)),
          is_active = True, created_at = t, last_used = None,
          usage_count = 0, deactivated_at = None\<rparr>"
      have dv: "devices (exec cfg r s) = devices s @ [new]"
        using True by (simp add: r Register devices_register_device new_def)
      have idn: "device_id new = y" by (simp add: new_def)
      have "\<exists>d \<in> set (devices s @ [new]). device_id d = x"
        using ex by auto
      moreover have "\<forall>d \<in> set (devices s @ [new]). device_id d = x \<longrightarrow> \<not> is_active d"
      proof (intro ballI impI)
        fix d assume "d \<in> set (devices s @ [new])" "device_id d = x"
        then have "d \<in> set (devices s)" using ne idn by auto
        then show "\<not> is_active d" using off \<open>device_id d = x\<close> by blast
      qed
      ultimately show ?thesis unfolding dv by (rule conjI)
    next
      case False
      then have same: "devices (exec cfg r s) = devices s"
        by (simp only: r Register exec.simps devices_register_device if_False)
      show ?thesis unfolding same using ex off by (rule conjI)
    qed
  next
    case (Verify y otp ip)
    show ?thesis
    proof (cases "fst (verify_otp cfg y otp ip t s) = Verification True")
      case True
      then have dv: "devices (exec cfg r s) =
          map (\<lambda>d. if device_id d = y
                     then d\<lparr>last_used := Some t, usage_count := usage_count d + 1\<rparr> else d)
            (devices s)"
        by (simp add: r Verify devices_verify_otp)
      show ?thesis unfolding dv
        by (rule inactive_map) (simp, simp, rule ex, rule off)
    next
      case False
      then have same: "devices (exec cfg r s) = devices s"
        by (simp add: r Verify devices_verify_otp)
      show ?thesis unfolding same using ex off by (rule conjI)
    qed
  next
    case (Deactivate y)
    have dv: "devices (exec cfg r s) =
        map (\<lambda>d. if device_id d = y
                   then d\<lparr>is_active := False, deactivated_at := Some t\<rparr> else d)
          (devices s)"
      by (simp add: r Deactivate devices_deactivate_device)
    show ?thesis unfolding dv
      by (rule inactive_map) (simp, simp, rule ex, rule off)
  qed
qed

lemma inactive_run:
  "\<exists>d \<in> set (devices s). device_id d = x \<Longrightarrow>
   \<forall>d \<in> set (devices s). device_id d = x \<longrightarrow> \<not> is_active d \<Longrightarrow>
   \<forall>d \<in> set (devices (run cfg rs s)). device_id d = x \<longrightarrow> \<not> is_active d"
proof (induction rs arbitrary: s)
  case Nil
  then show ?case by (simp only: run.simps)
next
  case (Cons r rs)
  have "(\<exists>d \<in> set (devices (exec cfg r s)). device_id d = x)
       \<and> (\<forall>d \<in> set (devices (exec cfg r s)). device_id d = x \<longrightarrow> \<not> is_active d)"
    using Cons.prems by (rule inactive_exec)
  then have "\<forall>d \<in> set (devices (run cfg rs (exec cfg r s))). device_id d = x \<longrightarrow> \<not> is_active d"
    using Cons.IH [of "exec cfg r s"] by blast
  then show ?case by (simp only: run.simps)
qed



section \<open>The claims about the service\<close>

lemma totp_D1_12130835: "verify_totp cfg_M key_D1 835334 12130835 = Inr True"
  by (simp add: verify_totp_def cfg_M_simps upto_window_1 otp_D1_404360)

text \<open>
  Claim C3 (every verification attempt is audited and committed before the call returns).
  The two rejection paths of \<open>verify_otp\<close> hand their audit row to the session and return
  without \<open>db.commit()\<close>: for an unknown device and for a rate-limited device the committed
  audit table is what it was, the row is only pending, and it is gone when the session is
  closed.
\<close>
theorem rejected_attempts_not_committed:
  "verify_otp cfg_M ''GHOST'' 123456 ''10.0.0.7'' 12130835 db_D1 =
     (VerifyError ''Device not found or inactive'',
      db_D1\<lparr>pending :=
        [\<lparr>log_device_id = ''GHOST'', action = ''INVALID_DEVICE'', success = False,
          timestamp = 12130835, ip_address = ''10.0.0.7''\<rparr>]\<rparr>)
   \<and> audit_logs (snd (verify_otp cfg_M ''GHOST'' 123456 ''10.0.0.7'' 12130835 db_D1)) = audit_logs db_D1
   \<and> close (snd (verify_otp cfg_M ''GHOST'' 123456 ''10.0.0.7'' 12130835 db_D1)) = db_D1
   \<and> verify_otp cfg_M ''D1'' 835334 ''10.0.0.7'' 12130835 db_busy =
     (VerifyError ''Rate limit exceeded'',
      db_busy\<lparr>pending :=
        [\<lparr>log_device_id = ''D1'', action = ''RATE_LIMITED'', success = False,
          timestamp = 12130835, ip_address = ''10.0.0.7''\<rparr>]\<rparr>)
   \<and> close (snd (verify_otp cfg_M ''D1'' 835334 ''10.0.0.7'' 12130835 db_busy)) = db_busy"
  by (simp add: verify_otp_def recent_attempts_def log_verification_def add_log_def close_def
      db_busy_def db_D1_def row_D1_def log_D1_def attempt_D1_def)

lemma totp_failed_D1:
  "verify_totp cfg_M key_D1 123456 (12130700 + of_int i) = Inr False"
  if "i \<in> set [0, 1, 2, 3, 4, 5, 6, 7, 8, 9, 10]" for i
  using that
  by (auto simp: verify_totp_def cfg_M_simps upto_window_1 otp_D1_404355 otp_D1_404356
      otp_D1_404357 otp_D1_404358)

lemma run_busy:
  "run cfg_M (map failed_D1 [0, 1, 2, 3, 4, 5, 6, 7, 8, 9, 10]) db_D1 = db_busy"
  using totp_failed_D1 [of 0] totp_failed_D1 [of 1] totp_failed_D1 [of 2] totp_failed_D1 [of 3]
    totp_failed_D1 [of 4] totp_failed_D1 [of 5] totp_failed_D1 [of 6] totp_failed_D1 [of 7]
    totp_failed_D1 [of 8] totp_failed_D1 [of 9] totp_failed_D1 [of 10]
  by (simp add: failed_D1_def attempt_D1_def db_busy_def db_D1_def verify_otp_def
      recent_attempts_def log_verification_def add_log_def commit_def derive_D1
      row_D1_def log_D1_def)

lemma run_probed:
  "run cfg_M (map probe_D1 [0, 1, 2, 3, 4, 5, 6, 7, 8, 9, 10]
                @ [(Register ''D1'' ''alice'', 12000000)]) db_empty = db_probed"
  by (simp add: probe_D1_def probe_log_D1_def db_probed_def db_empty_def verify_otp_def
      register_device_def log_verification_def add_log_def commit_def derive_D1 hash_D1
      row_D1_def log_D1_def)

text \<open>
  Claim C4 as stated (more than ten \<open>VERIFIED\<close> or \<open>VERIFICATION_REJECTED\<close> entries of the
  device within the trailing five minutes give \<open>RateLimited\<close>) fails on two counts.  The code
  counts the rows later than \<open>now - 300\<close>: in \<open>db_busy\<close>, reached from \<open>db_D1\<close> by eleven
  requests with a wrong code, at 12131000 the specification's window \<open>[now - 300, now]\<close>
  holds eleven attempts, the oldest exactly five minutes old, the code counts ten and does
  not rate limit.  And the code counts \<open>OTP_VERIFICATION\<close> rows
  only: \<open>db_probed\<close>, reached from the empty store by eleven requests for the still unknown
  \<open>D1\<close> and its registration, holds eleven rejected attempts of the device within the window
  at 12000100, and the request is not rate limited.
\<close>
theorem rate_limit_boundary_counterexample:
  "run cfg_M (map failed_D1 [0, 1, 2, 3, 4, 5, 6, 7, 8, 9, 10]) db_D1 = db_busy
   \<and> spec_attempts_in_window db_busy ''D1'' 12131000 = 11
   \<and> recent_attempts db_busy ''D1'' 12131000 = 10
   \<and> fst (verify_otp cfg_M ''D1'' 835334 ''10.0.0.7'' 12131000 db_busy)
       \<noteq> VerifyError ''Rate limit exceeded''
   \<and> run cfg_M (map probe_D1 [0, 1, 2, 3, 4, 5, 6, 7, 8, 9, 10]
                  @ [(Register ''D1'' ''alice'', 12000000)]) db_empty = db_probed
   \<and> spec_attempts_in_window db_probed ''D1'' 12000100 = 11
   \<and> recent_attempts db_probed ''D1'' 12000100 = 0
   \<and> fst (verify_otp cfg_M ''D1'' 835334 ''10.0.0.7'' 12000100 db_probed)
       \<noteq> VerifyError ''Rate limit exceeded''"
proof -
  have a: "spec_attempts_in_window db_busy ''D1'' 12131000 = 11"
    by (simp add: spec_attempts_in_window_def db_busy_def db_D1_def log_D1_def attempt_D1_def)
  have a': "recent_attempts db_busy ''D1'' 12131000 = 10"
    by (simp add: recent_attempts_def db_busy_def db_D1_def log_D1_def attempt_D1_def)
  have b: "fst (verify_otp cfg_M ''D1'' 835334 ''10.0.0.7'' 12131000 db_busy)
       \<noteq> VerifyError ''Rate limit exceeded''"
    by (rule verify_otp_not_limited)
      (simp_all add: a', simp add: db_busy_def db_D1_def row_D1_def)
  have c: "spec_attempts_in_window db_probed ''D1'' 12000100 = 11"
    by (simp add: spec_attempts_in_window_def db_probed_def probe_log_D1_def log_D1_def)
  have c': "recent_attempts db_probed ''D1'' 12000100 = 0"
    by (simp add: recent_attempts_def db_probed_def probe_log_D1_def log_D1_def)
  have d: "fst (verify_otp cfg_M ''D1'' 835334 ''10.0.0.7'' 12000100 db_probed)
       \<noteq> VerifyError ''Rate limit exceeded''"
    by (rule verify_otp_not_limited)
      (simp_all add: c', simp add: db_probed_def row_D1_def)
  show ?thesis using a a' b c c' d run_busy run_probed by simp
qed

text \<open>
  Claim C4, amended.  When the device has an active row and more than ten committed audit rows
  of the device have the action \<open>OTP_VERIFICATION\<close> (a checked code, accepted or not) and a
  timestamp later than \<open>now - 300\<close>, the request is answered \<open>Rate limit exceeded\<close>.  The
  answer and the new state do not depend on the submitted code or on the settings (no key is
  derived, no code is computed), and the device rows, the usage statistics among them, are
  unchanged.
\<close>

theorem verify_otp_rate_limited:
  assumes "\<exists>d \<in> set (devices s). device_id d = x \<and> is_active d"
    and "10 < length (filter (\<lambda>l. log_device_id l = x \<and> action l = ''OTP_VERIFICATION''
                                     \<and> now - 300 < timestamp l) (audit_logs s))"
  shows "verify_otp cfg x otp ip now s =
           (VerifyError ''Rate limit exceeded'', log_verification s x ''RATE_LIMITED'' False ip now)
         \<and> devices (snd (verify_otp cfg x otp ip now s)) = devices s"
proof -
  have "10 < recent_attempts s x now"
    using assms(2) by (simp add: recent_attempts_def)
  then show ?thesis using verify_otp_limited [OF assms(1), of now cfg otp ip] by simp
qed

text \<open>
  Witness for C4 amended: eleven checked codes in the last five minutes, the correct current
  code submitted.
\<close>

theorem verify_otp_rate_limited_witness:
  "(\<exists>d \<in> set (devices db_busy). device_id d = ''D1'' \<and> is_active d)
   \<and> length (filter (\<lambda>l. log_device_id l = ''D1'' \<and> action l = ''OTP_VERIFICATION''
                            \<and> 12130835 - 300 < timestamp l) (audit_logs db_busy)) = 11
   \<and> client_generate_otp cfg_M (generate_derived_key cfg_M ''D1'') 12130835 = Inr 835334
   \<and> verify_otp cfg_M ''D1'' 835334 ''10.0.0.7'' 12130835 db_busy =
       (VerifyError ''Rate limit exceeded'',
        log_verification db_busy ''D1'' ''RATE_LIMITED'' False ''10.0.0.7'' 12130835)
   \<and> devices (snd (verify_otp cfg_M ''D1'' 835334 ''10.0.0.7'' 12130835 db_busy)) = devices db_busy"
proof -
  have a: "\<exists>d \<in> set (devices db_busy). device_id d = ''D1'' \<and> is_active d"
    by (simp add: db_busy_def db_D1_def row_D1_def)
  have n: "length (filter (\<lambda>l. log_device_id l = ''D1'' \<and> action l = ''OTP_VERIFICATION''
                            \<and> 12130835 - 300 < timestamp l) (audit_logs db_busy)) = 11"
    by (simp add: db_busy_def db_D1_def log_D1_def attempt_D1_def)
  have b: "10 < length (filter (\<lambda>l. log_device_id l = ''D1'' \<and> action l = ''OTP_VERIFICATION''
                            \<and> 12130835 - 300 < timestamp l) (audit_logs db_busy))"
    unfolding n by simp
  have c: "client_generate_otp cfg_M (generate_derived_key cfg_M ''D1'') 12130835 = Inr 835334"
    by (simp add: client_generate_otp_def derive_D1 cfg_M_simps otp_D1_404361)
  show ?thesis
    using a n c verify_otp_rate_limited [OF a b, of cfg_M 835334 "''10.0.0.7''"] by simp
qed

text \<open>
  Claim C5.  Registering an absent \<open>device_id\<close> succeeds; after any further requests
  (deactivation among them) a second registration of the same \<open>device_id\<close> fails with
  \<open>Device already registered\<close>, leaves the state as it was, and the store holds exactly one
  row for that \<open>device_id\<close>.
\<close>
theorem register_device_twice:
  assumes "\<forall>d \<in> set (devices s). device_id d \<noteq> x"
    and "s2 = run cfg rs (snd (register_device cfg x user now s))"
  shows "fst (register_device cfg x user now s) =
           Registered (b64encode (generate_derived_key cfg x)) x ''Device registered successfully''
       \<and> register_device cfg x user2 now2 s2 = (RegisterError ''Device already registered'', s2)
       \<and> length (filter (\<lambda>d. device_id d = x) (devices s2)) = 1"
proof -
  have one: "length (filter (\<lambda>d. device_id d = x) (devices s2)) = Suc 0"
    unfolding assms(2) using register_device_fresh(2) [OF assms(1)] by (rule rows_run)
  show ?thesis
    using register_device_fresh(1) [OF assms(1)] register_device_existing [OF one] one
    by simp
qed

text \<open>Witness for C5: \<open>D1\<close> registered, registered again, deactivated, registered again.\<close>

theorem register_device_twice_witness:
  "devices db_empty = []
   \<and> register_device cfg_M ''D1'' ''alice'' 12000000 db_empty =
       (Registered ''nIttPLjCdUQr1Bvs4xZKZ46/TLnD/Te75AngOdZsg1A='' ''D1''
          ''Device registered successfully'', db_D1)
   \<and> register_device cfg_M ''D1'' ''bob'' 12000060 db_D1 =
       (RegisterError ''Device already registered'', db_D1)
   \<and> run cfg_M [(Deactivate ''D1'', 12130820)] db_D1 = db_off
   \<and> register_device cfg_M ''D1'' ''bob'' 12130835 db_off =
       (RegisterError ''Device already registered'', db_off)
   \<and> length (filter (\<lambda>d. device_id d = ''D1'') (devices db_off)) = 1"
proof -
  have a: "\<forall>d \<in> set (devices db_empty). device_id d \<noteq> ''D1''"
    by (simp add: db_empty_def)
  have s1: "snd (register_device cfg_M ''D1'' ''alice'' 12000000 db_empty) = db_D1"
    by (simp add: register_D1)
  have off: "run cfg_M [(Deactivate ''D1'', 12130820)] db_D1 = db_off"
    by (simp add: deactivate_device_def update_device_def add_log_def commit_def
        db_D1_def db_off_def row_D1_def log_D1_def)
  have "db_D1 = run cfg_M [] (snd (register_device cfg_M ''D1'' ''alice'' 12000000 db_empty))"
    by (simp add: s1)
  note first = register_device_twice [OF a this, of "''bob''" 12000060]
  have "db_off = run cfg_M [(Deactivate ''D1'', 12130820)]
      (snd (register_device cfg_M ''D1'' ''alice'' 12000000 db_empty))"
    by (simp only: s1 off)
  note second = register_device_twice [OF a this, of "''bob''" 12130835]
  have e: "devices db_empty = []" by (simp add: db_empty_def)
  show ?thesis using e first second off by (simp add: register_D1)
qed

text \<open>
  Claim C6.  A verification request for a \<open>device_id\<close> that has no active row (no row at
  all, or only a deactivated one) is answered \<open>Device not found or inactive\<close> whatever the
  code is; in particular this is the answer to every request that follows a deactivation of
  the device.
\<close>
theorem verify_otp_device_unavailable:
  "((\<forall>d \<in> set (devices s). device_id d = x \<longrightarrow> \<not> is_active d) \<longrightarrow>
      fst (verify_otp cfg x otp ip now s) = VerifyError ''Device not found or inactive'')
   \<and> fst (verify_otp cfg x otp ip now' (snd (deactivate_device x now s)))
       = VerifyError ''Device not found or inactive''"
proof (intro conjI impI)
  assume "\<forall>d \<in> set (devices s). device_id d = x \<longrightarrow> \<not> is_active d"
  then show "fst (verify_otp cfg x otp ip now s) = VerifyError ''Device not found or inactive''"
    by (simp only: verify_otp_unavailable fst_conv)
next
  have "\<forall>d \<in> set (devices (snd (deactivate_device x now s))). device_id d = x \<longrightarrow> \<not> is_active d"
    using deactivate_device_inactive by blast
  then show "fst (verify_otp cfg x otp ip now' (snd (deactivate_device x now s)))
       = VerifyError ''Device not found or inactive''"
    by (simp only: verify_otp_unavailable fst_conv)
qed

text \<open>Witness for C6: the code that verifies before the deactivation of \<open>D1\<close>, and an unknown device.\<close>

theorem verify_otp_device_unavailable_witness:
  "map device_id (devices db_off) = [''D1''] \<and> map is_active (devices db_off) = [False]
   \<and> map device_id (devices db_D1) = [''D1'']
   \<and> fst (verify_otp cfg_M ''D1'' 835334 ''10.0.0.7'' 12130835 db_D1) = Verification True
   \<and> snd (deactivate_device ''D1'' 12130820 db_D1) = db_off
   \<and> fst (verify_otp cfg_M ''D1'' 835334 ''10.0.0.7'' 12130835 db_off)
       = VerifyError ''Device not found or inactive''
   \<and> fst (verify_otp cfg_M ''GHOST'' 835334 ''10.0.0.7'' 12130835 db_D1)
       = VerifyError ''Device not found or inactive''"
proof -
  have a: "\<forall>d \<in> set (devices db_off). device_id d = ''D1'' \<longrightarrow> \<not> is_active d"
    by (simp add: db_off_def)
  have b: "\<forall>d \<in> set (devices db_D1). device_id d = ''GHOST'' \<longrightarrow> \<not> is_active d"
    by (simp add: db_D1_def row_D1_def)
  have off: "snd (deactivate_device ''D1'' 12130820 db_D1) = db_off"
    by (simp add: deactivate_device_def update_device_def add_log_def commit_def
        db_D1_def db_off_def row_D1_def log_D1_def)
  have ok: "fst (verify_otp cfg_M ''D1'' 835334 ''10.0.0.7'' 12130835 db_D1) = Verification True"
    by (simp add: verify_otp_def recent_attempts_def derive_D1 totp_D1_12130835
        db_D1_def row_D1_def log_D1_def)
  have rows: "map device_id (devices db_off) = [''D1'']" "map is_active (devices db_off) = [False]"
    "map device_id (devices db_D1) = [''D1'']"
    by (simp_all add: db_off_def db_D1_def row_D1_def)
  show ?thesis
    using a b off ok rows
      verify_otp_device_unavailable [of db_off "''D1''" cfg_M 835334 "''10.0.0.7''" 12130835]
      verify_otp_device_unavailable [of db_D1 "''GHOST''" cfg_M 835334 "''10.0.0.7''" 12130835]
    by simp
qed


text \<open>
  Claim C8 as stated (\<open>deactivated_at\<close> is never overwritten once set) fails: deactivating
  the deactivated device \<open>D1\<close> again succeeds and replaces the time of its deactivation.
\<close>
theorem deactivated_at_overwritten_counterexample:
  "snd (deactivate_device ''D1'' 12130820 db_D1) = db_off
   \<and> map deactivated_at (devices db_off) = [Some 12130820]
   \<and> fst (deactivate_device ''D1'' 12130900 db_off) = Deactivated ''Device deactivated successfully''
   \<and> map deactivated_at (devices (snd (deactivate_device ''D1'' 12130900 db_off))) = [Some 12130900]"
  by (simp add: deactivate_device_def update_device_def add_log_def commit_def
      db_D1_def db_off_def row_D1_def log_D1_def)

text \<open>
  Claim C8, amended.  A deactivation request for the device of a row succeeds, also when the
  row is inactive already, sets its \<open>deactivated_at\<close> to the time of the request and leaves
  it inactive.  Along every run of requests a row keeps its \<open>device_id\<close>, a deactivated row
  stays deactivated, and \<open>deactivated_at\<close> is written by deactivation requests for that
  device only: it is either what it was or the time of such a request, and after a run that
  holds such a request it is the time of the last one, the row being inactive.  A
  \<open>device_id\<close> all of whose rows are inactive has no active row ever after.
\<close>

theorem deactivation_terminal:
  assumes "i < length (devices s)"
  shows "i < length (devices (run cfg rs s))
    \<and> device_id (devices (run cfg rs s) ! i) = device_id (devices s ! i)
    \<and> (\<not> is_active (devices s ! i) \<longrightarrow> \<not> is_active (devices (run cfg rs s) ! i))
    \<and> (deactivated_at (devices (run cfg rs s) ! i) = deactivated_at (devices s ! i)
        \<or> (\<exists>t. (Deactivate (device_id (devices s ! i)), t) \<in> set rs
              \<and> deactivated_at (devices (run cfg rs s) ! i) = Some t))
    \<and> ((\<forall>d \<in> set (devices s). device_id d = device_id (devices s ! i) \<longrightarrow> \<not> is_active d) \<longrightarrow>
        (\<forall>d \<in> set (devices (run cfg rs s)).
           device_id d = device_id (devices s ! i) \<longrightarrow> \<not> is_active d))
    \<and> fst (deactivate_device (device_id (devices s ! i)) t s)
        = Deactivated ''Device deactivated successfully''
    \<and> deactivated_at (devices (snd (deactivate_device (device_id (devices s ! i)) t s)) ! i) = Some t
    \<and> \<not> is_active (devices (snd (deactivate_device (device_id (devices s ! i)) t s)) ! i)
    \<and> (\<forall>rs1 t1 rs2.
          rs = rs1 @ (Deactivate (device_id (devices s ! i)), t1) # rs2
          \<and> (\<forall>t'. (Deactivate (device_id (devices s ! i)), t') \<notin> set rs2) \<longrightarrow>
          deactivated_at (devices (run cfg rs s) ! i) = Some t1
          \<and> \<not> is_active (devices (run cfg rs s) ! i))"
proof -
  have "\<exists>d \<in> set (devices s). device_id d = device_id (devices s ! i)"
    using assms by (auto intro: bexI [of _ "devices s ! i"])
  then have ids: "(\<forall>d \<in> set (devices s). device_id d = device_id (devices s ! i) \<longrightarrow> \<not> is_active d) \<longrightarrow>
        (\<forall>d \<in> set (devices (run cfg rs s)).
           device_id d = device_id (devices s ! i) \<longrightarrow> \<not> is_active d)"
    using inactive_run [of s "device_id (devices s ! i)" cfg rs] by blast
  have once: "fst (deactivate_device (device_id (devices s ! i)) t s)
        = Deactivated ''Device deactivated successfully''"
    "deactivated_at (devices (snd (deactivate_device (device_id (devices s ! i)) t s)) ! i) = Some t"
    "\<not> is_active (devices (snd (deactivate_device (device_id (devices s ! i)) t s)) ! i)"
    using deactivate_device_row [OF assms refl, of t] by simp_all
  have lastd: "\<forall>rs1 t1 rs2.
          rs = rs1 @ (Deactivate (device_id (devices s ! i)), t1) # rs2
          \<and> (\<forall>t'. (Deactivate (device_id (devices s ! i)), t') \<notin> set rs2) \<longrightarrow>
          deactivated_at (devices (run cfg rs s) ! i) = Some t1
          \<and> \<not> is_active (devices (run cfg rs s) ! i)"
    using run_last_deactivation [OF assms] by blast
  show ?thesis
    using run_row [OF assms, of cfg rs] ids once lastd by (intro conjI) blast+
qed

text \<open>
  Witness for C8 amended: the device \<open>D1\<close>, deactivated at 12130820, under three more
  requests, the last of them its deactivation at 12130900.
\<close>

theorem deactivation_terminal_witness:
  "devices db_off = [row_D1\<lparr>is_active := False, deactivated_at := Some 12130820\<rparr>]
   \<and> device_id (devices db_off ! 0) = ''D1''
   \<and> fst (deactivate_device ''D1'' 12130900 db_off) = Deactivated ''Device deactivated successfully''
   \<and> deactivated_at (devices (snd (deactivate_device ''D1'' 12130900 db_off)) ! 0) = Some 12130900
   \<and> deactivated_at (devices (run cfg_M [(Register ''D1'' ''bob'', 12130830),
                         (Verify ''D1'' 835334 ''10.0.0.7'', 12130835),
                         (Deactivate ''D1'', 12130900)] db_off) ! 0) = Some 12130900
   \<and> \<not> is_active (devices (run cfg_M [(Register ''D1'' ''bob'', 12130830),
                         (Verify ''D1'' 835334 ''10.0.0.7'', 12130835),
                         (Deactivate ''D1'', 12130900)] db_off) ! 0)
   \<and> devices (run cfg_M [(Register ''D1'' ''bob'', 12130830),
                         (Verify ''D1'' 835334 ''10.0.0.7'', 12130835),
                         (Deactivate ''D1'', 12130900)] db_off) =
       [row_D1\<lparr>is_active := False, deactivated_at := Some 12130900\<rparr>]"
proof -
  define rs where "rs = [(Register ''D1'' ''bob'', 12130830 :: real),
                         (Verify ''D1'' 835334 ''10.0.0.7'', 12130835),
                         (Deactivate ''D1'', 12130900)]"
  have a: "0 < length (devices db_off)" by (simp add: db_off_def)
  have b: "devices db_off = [row_D1\<lparr>is_active := False, deactivated_at := Some 12130820\<rparr>]"
    by (simp add: db_off_def)
  have id: "device_id (devices db_off ! 0) = ''D1''"
    by (simp add: db_off_def row_D1_def)
  have c: "devices (run cfg_M rs db_off) =
       [row_D1\<lparr>is_active := False, deactivated_at := Some 12130900\<rparr>]"
    by (simp add: rs_def register_device_def verify_otp_def deactivate_device_def update_device_def
        log_verification_def add_log_def commit_def db_off_def row_D1_def)
  note th = deactivation_terminal [OF a, of cfg_M rs 12130900]
  have once: "fst (deactivate_device ''D1'' 12130900 db_off)
        = Deactivated ''Device deactivated successfully''"
    "deactivated_at (devices (snd (deactivate_device ''D1'' 12130900 db_off)) ! 0) = Some 12130900"
    using th unfolding id by blast+
  have split: "rs = [(Register ''D1'' ''bob'', 12130830),
                     (Verify ''D1'' 835334 ''10.0.0.7'', 12130835)]
                    @ (Deactivate (device_id (devices db_off ! 0)), 12130900) # []"
    by (simp add: rs_def id)
  have none: "\<forall>t'. (Deactivate (device_id (devices db_off ! 0)), t') \<notin> set []" by simp
  have last: "deactivated_at (devices (run cfg_M rs db_off) ! 0) = Some 12130900
      \<and> \<not> is_active (devices (run cfg_M rs db_off) ! 0)"
    using th split none by blast
  show ?thesis
    using b id c once last unfolding rs_def by simp
qed

text \<open>
  Claim C9.  A verification request succeeds exactly when the device is active, not rate
  limited and the code is valid.  On success the row of the device gets \<open>last_used = now\<close>
  and \<open>usage_count + 1\<close>, all else unchanged; on every other outcome the device table is
  unchanged.
\<close>
theorem usage_updated_only_on_success:
  "(fst (verify_otp cfg x otp ip now s) = Verification True \<longleftrightarrow>
      (\<exists>d \<in> set (devices s). device_id d = x \<and> is_active d)
      \<and> recent_attempts s x now \<le> 10
      \<and> verify_totp cfg (generate_derived_key cfg x) otp now = Inr True)
   \<and> devices (snd (verify_otp cfg x otp ip now s)) =
       (if fst (verify_otp cfg x otp ip now s) = Verification True
        then map (\<lambda>d. if device_id d = x
                       then d\<lparr>last_used := Some now, usage_count := usage_count d + 1\<rparr> else d)
               (devices s)
        else devices s)"
  by (rule verify_otp_frame)

text \<open>Witness for C9: a successful and a rate-limited request of \<open>D1\<close>.\<close>

theorem usage_updated_only_on_success_witness:
  "fst (verify_otp cfg_M ''D1'' 835334 ''10.0.0.7'' 12130835 db_D1) = Verification True
   \<and> devices (snd (verify_otp cfg_M ''D1'' 835334 ''10.0.0.7'' 12130835 db_D1)) =
       [row_D1\<lparr>last_used := Some 12130835, usage_count := 1\<rparr>]
   \<and> fst (verify_otp cfg_M ''D1'' 835334 ''10.0.0.7'' 12130835 db_busy) \<noteq> Verification True
   \<and> devices (snd (verify_otp cfg_M ''D1'' 835334 ''10.0.0.7'' 12130835 db_busy)) = [row_D1]"
proof -
  have a: "\<exists>d \<in> set (devices db_D1). device_id d = ''D1'' \<and> is_active d"
    by (simp add: db_D1_def row_D1_def)
  have b: "recent_attempts db_D1 ''D1'' 12130835 \<le> 10"
    by (simp add: recent_attempts_def db_D1_def log_D1_def)
  have c: "verify_totp cfg_M (generate_derived_key cfg_M ''D1'') 835334 12130835 = Inr True"
    by (simp add: derive_D1 totp_D1_12130835)
  have d: "\<not> recent_attempts db_busy ''D1'' 12130835 \<le> 10"
    by (simp add: recent_attempts_def db_busy_def db_D1_def log_D1_def attempt_D1_def)
  have ok: "fst (verify_otp cfg_M ''D1'' 835334 ''10.0.0.7'' 12130835 db_D1) = Verification True"
    using a b c usage_updated_only_on_success [of cfg_M "''D1''" 835334 "''10.0.0.7''" 12130835 db_D1]
    by blast
  have no: "fst (verify_otp cfg_M ''D1'' 835334 ''10.0.0.7'' 12130835 db_busy) \<noteq> Verification True"
    using d usage_updated_only_on_success [of cfg_M "''D1''" 835334 "''10.0.0.7''" 12130835 db_busy]
    by blast
  have "devices (snd (verify_otp cfg_M ''D1'' 835334 ''10.0.0.7'' 12130835 db_D1)) =
       [row_D1\<lparr>last_used := Some 12130835, usage_count := 1\<rparr>]"
    using ok usage_updated_only_on_success [of cfg_M "''D1''" 835334 "''10.0.0.7''" 12130835 db_D1]
    by (simp add: db_D1_def row_D1_def)
  moreover have "devices (snd (verify_otp cfg_M ''D1'' 835334 ''10.0.0.7'' 12130835 db_busy)) = [row_D1]"
    using no usage_updated_only_on_success [of cfg_M "''D1''" 835334 "''10.0.0.7''" 12130835 db_busy]
    by (simp add: db_busy_def db_D1_def)
  ultimately show ?thesis using ok no by simp
qed

text \<open>
  Claim C10.  When the current time step is smaller than the window (\<open>window \<ge> 0\<close>), the
  first time step tried is negative, \<open>struct.pack\<close> raises, and the request of an active
  device that is not rate limited is answered \<open>Verification failed\<close> after a rollback,
  whatever the code is.
\<close>
theorem verify_otp_before_window:
  assumes "otp_interval cfg \<noteq> 0" "0 \<le> otp_window cfg"
    and "current_time_step (otp_interval cfg) now < otp_window cfg"
    and "\<exists>d \<in> set (devices s). device_id d = x \<and> is_active d"
    and "recent_attempts s x now \<le> 10"
  shows "verify_totp cfg (generate_derived_key cfg x) otp now = Inl StructError
       \<and> verify_otp cfg x otp ip now s = (VerifyError ''Verification failed'', rollback s)"
proof -
  have totp: "verify_totp cfg (generate_derived_key cfg x) otp now = Inl StructError"
    using assms(1-3) by (rule verify_totp_before_window)
  then have "verify_otp cfg x otp ip now s = (VerifyError ''Verification failed'', rollback s)"
    using verify_otp_checked [OF assms(4,5), of cfg otp ip] by simp
  then show ?thesis using totp by simp
qed

text \<open>Witness for C10: five seconds after the epoch, the correct current code submitted.\<close>

theorem verify_otp_before_window_witness:
  "otp_interval cfg_M \<noteq> 0 \<and> 0 \<le> otp_window cfg_M
   \<and> current_time_step (otp_interval cfg_M) 5 < otp_window cfg_M
   \<and> (\<exists>d \<in> set (devices db_D1). device_id d = ''D1'' \<and> is_active d)
   \<and> recent_attempts db_D1 ''D1'' 5 \<le> 10
   \<and> client_generate_otp cfg_M (generate_derived_key cfg_M ''D1'') 5 = Inr 686598
   \<and> verify_otp cfg_M ''D1'' 686598 ''10.0.0.7'' 5 db_D1 = (VerifyError ''Verification failed'', db_D1)"
proof -
  have a: "otp_interval cfg_M \<noteq> 0" "0 \<le> otp_window cfg_M"
    "current_time_step (otp_interval cfg_M) 5 < otp_window cfg_M"
    by (simp_all add: cfg_M_simps current_time_step_def)
  have b: "\<exists>d \<in> set (devices db_D1). device_id d = ''D1'' \<and> is_active d"
    by (simp add: db_D1_def row_D1_def)
  have c: "recent_attempts db_D1 ''D1'' 5 \<le> 10"
    by (simp add: recent_attempts_def db_D1_def log_D1_def)
  have d: "client_generate_otp cfg_M (generate_derived_key cfg_M ''D1'') 5 = Inr 686598"
    by (simp add: client_generate_otp_def derive_D1 cfg_M_simps otp_D1_0)
  have e: "rollback db_D1 = db_D1" by (simp add: rollback_def db_D1_def)
  show ?thesis
    using a b c d verify_otp_before_window [OF a b c, of 686598 "''10.0.0.7''"] by (simp add: e)
qed

end
